theory Spec2Isabelle
  imports Complex_Main "HOL-Library.Word"
begin

unbundle bit_operations_syntax

section \<open>jsleep: a sleep command with jitter\<close>

text \<open>
  A shallow embedding of \<^verbatim>\<open>jsleep.go\<close>. The five functions of the program
  (\<^verbatim>\<open>parseArgs\<close>, \<^verbatim>\<open>parseDuration\<close>, \<^verbatim>\<open>parsePercent\<close>, \<^verbatim>\<open>chooseSleepDuration\<close>,
  \<^verbatim>\<open>cryptoRandInt64\<close>) are translated line by line. The functions of the Go standard
  library they call (\<^verbatim>\<open>flag.FlagSet.Parse\<close>, \<^verbatim>\<open>strconv.ParseFloat\<close>,
  \<^verbatim>\<open>time.ParseDuration\<close>, the \<^verbatim>\<open>float64\<close> arithmetic and \<^verbatim>\<open>math.Round\<close>) are modelled
  after the Go sources and the Go language specification, each in a subsection of its
  own. \<^verbatim>\<open>crypto/rand.Read\<close> is a parameter: the sequence of its results.
\<close>

subsection \<open>Machine integers and errors\<close>

text \<open>
  \<^verbatim>\<open>time.Duration\<close> is an \<^verbatim>\<open>int64\<close> count of nanoseconds. Both \<^verbatim>\<open>int64\<close> and
  \<^verbatim>\<open>uint64\<close> are 64-bit words: \<open>+\<close>, \<open>-\<close> and \<open>*\<close> wrap around as Go's do, \<open>sint\<close>
  reads a word as \<^verbatim>\<open>int64\<close>, \<open>unat\<close> as \<^verbatim>\<open>uint64\<close>; \<open><s\<close> is the signed order.
\<close>

type_synonym int64 = "64 word"
type_synonym uint64 = "64 word"
type_synonym Duration = "64 word"

text \<open>Go's built-in \<^verbatim>\<open>max\<close> and \<^verbatim>\<open>min\<close> at type \<^verbatim>\<open>time.Duration\<close>.\<close>

definition max_d :: "Duration \<Rightarrow> Duration \<Rightarrow> Duration" where
  "max_d a b = (if a <s b then b else a)"

definition min_d :: "Duration \<Rightarrow> Duration \<Rightarrow> Duration" where
  "min_d a b = (if b <s a then b else a)"

definition MaxInt64 :: int where
  "MaxInt64 = 2 ^ 63 - 1"

definition MinInt64 :: int where
  "MinInt64 = - (2 ^ 63)"

text \<open>
  One constructor for each error the program can return: those built by \<^verbatim>\<open>errors.New\<close>
  and \<^verbatim>\<open>fmt.Errorf\<close> in \<^verbatim>\<open>jsleep.go\<close> (named after their message), and those passed on
  from the library (\<open>Flag...\<close> from \<^verbatim>\<open>flag\<close>, \<open>Time...\<close> from \<^verbatim>\<open>time.ParseDuration\<close>,
  \<open>RandReadFailed\<close> from \<^verbatim>\<open>rand.Read\<close>).
\<close>

datatype error =
    FlagBadSyntax string
  | FlagHelp
  | FlagNotDefined string
  | FlagNeedsArgument string
  | FlagInvalidBool string string
  | TooManyPositional
  | JitterWithRange
  | JitterPositionalAndFlag
  | PositionalJitterWithRange
  | MaxLessThanMin
  | RangeRequiresBase
  | JitterOverflow
  | MissingDuration
  | EmptyInterval
  | EmptyDuration
  | InvalidDuration string
  | DurationOutOfRange string
  | TimeInvalidDuration string
  | TimeMissingUnit string
  | TimeUnknownUnit string string
  | PercentMustEndWithPercent string
  | InvalidPercent string
  | JitterNegative
  | LowAboveHigh
  | NNotPositive
  | RandReadFailed
  | RandExhausted

subsection \<open>Bytes of a string\<close>

text \<open>
  A Go string is a sequence of bytes, here a \<open>char list\<close>. The tests on single bytes
  that the parsers make are on the byte's number.
\<close>

definition byte :: "char \<Rightarrow> nat" where
  "byte c = of_char c"

definition isDigit :: "char \<Rightarrow> bool" where
  "isDigit c = (48 \<le> byte c \<and> byte c \<le> 57)"

definition digitVal :: "char \<Rightarrow> nat" where
  "digitVal c = byte c - 48"

text \<open>\<^verbatim>\<open>'a' <= lower(c) && lower(c) <= 'f'\<close>: a hexadecimal letter of either case.\<close>

definition isHexLetter :: "char \<Rightarrow> bool" where
  "isHexLetter c = ((97 \<le> byte c \<and> byte c \<le> 102) \<or> (65 \<le> byte c \<and> byte c \<le> 70))"

definition hexLetterVal :: "char \<Rightarrow> nat" where
  "hexLetterVal c = (if 97 \<le> byte c then byte c - 87 else byte c - 55)"

text \<open>
  The ASCII lower case of a byte, as \<^verbatim>\<open>commonPrefixLenIgnoreCase\<close> computes it, and
  \<^verbatim>\<open>lower(c)\<close> of \<^verbatim>\<open>strconv\<close>, which is \<^verbatim>\<open>c | ('x' - 'X')\<close>; both as the number of the
  resulting byte.
\<close>

definition asciiLower :: "char \<Rightarrow> nat" where
  "asciiLower c = (if 65 \<le> byte c \<and> byte c \<le> 90 then byte c + 32 else byte c)"

definition lower :: "char \<Rightarrow> nat" where
  "lower c = byte c OR 32"

text \<open>\<^verbatim>\<open>strings.HasSuffix(s, "c")\<close> and \<^verbatim>\<open>strings.TrimSuffix(s, "c")\<close> for a one-byte suffix.\<close>

definition HasSuffix :: "string \<Rightarrow> char \<Rightarrow> bool" where
  "HasSuffix s c = (s \<noteq> [] \<and> last s = c)"

definition TrimSuffix :: "string \<Rightarrow> char \<Rightarrow> string" where
  "TrimSuffix s c = (if HasSuffix s c then butlast s else s)"

subsection \<open>The type float64\<close>

text \<open>
  An IEEE 754 binary64 value is a NaN, an infinity, or a finite number, which is a
  rational. The two zeros are one value here: the program never divides by a variable
  and never looks at the sign of a zero, so nothing it computes tells them apart.
  Every operation computes the exact rational result and rounds it once with
  \<open>round64\<close>, to the nearest value with 53 significant bits, ties to the even one, as
  the standard asks of \<open>+\<close>, \<open>-\<close>, \<open>*\<close>, \<open>/\<close> and of conversions.
\<close>

datatype float64 = Finite rat | PosInf | NegInf | NaN

definition pow2 :: "int \<Rightarrow> rat" where
  "pow2 e = (if 0 \<le> e then 2 ^ nat e else 1 / 2 ^ nat (- e))"

text \<open>
  \<open>find_exp k e q\<close> bisects for the largest \<open>e'\<close> in \<open>[e, e + 2 ^ k)\<close> with
  \<open>2 ^ e' \<le> q\<close>, when \<open>2 ^ e \<le> q\<close>.
\<close>

fun find_exp :: "nat \<Rightarrow> int \<Rightarrow> rat \<Rightarrow> int" where
  "find_exp 0 e q = e"
| "find_exp (Suc k) e q =
     (if pow2 (e + 2 ^ k) \<le> q then find_exp k (e + 2 ^ k) q else find_exp k e q)"

text \<open>
  The binary exponent of a positive rational, not below that of the subnormal range
  (\<open>- 1022\<close>) and, for a number beyond the largest finite value, some exponent above 1023.
\<close>

definition exponent64 :: "rat \<Rightarrow> int" where
  "exponent64 a = (if a < pow2 (- 1022) then - 1022 else find_exp 11 (- 1022) a)"

definition round_even :: "rat \<Rightarrow> int" where
  "round_even q =
     (let f = \<lfloor>q\<rfloor>; r = q - of_int f
      in if r < 1 / 2 then f else if 1 / 2 < r then f + 1 else if even f then f else f + 1)"

definition round64 :: "rat \<Rightarrow> float64" where
  "round64 q =
     (if q = 0 then Finite 0
      else
        let a = \<bar>q\<bar>;
            ulp = pow2 (exponent64 a - 52);
            r = of_int (round_even (a / ulp)) * ulp
        in if pow2 1024 \<le> r then (if 0 < q then PosInf else NegInf)
           else Finite (if 0 < q then r else - r))"

text \<open>The conversions \<^verbatim>\<open>float64(i)\<close> of an \<^verbatim>\<open>int64\<close> and of a \<^verbatim>\<open>uint64\<close>.\<close>

definition float64_of_int64 :: "int64 \<Rightarrow> float64" where
  "float64_of_int64 i = round64 (of_int (sint i))"

definition float64_of_uint64 :: "uint64 \<Rightarrow> float64" where
  "float64_of_uint64 u = round64 (of_int (uint u))"

text \<open>
  An untyped integer constant used at type \<^verbatim>\<open>float64\<close> (\<^verbatim>\<open>math.MaxInt64\<close>,
  \<^verbatim>\<open>math.MinInt64\<close>, \<^verbatim>\<open>24*time.Hour\<close>) is rounded to \<^verbatim>\<open>float64\<close>.
\<close>

definition float64_const :: "int \<Rightarrow> float64" where
  "float64_const i = round64 (of_int i)"

fun f_neg :: "float64 \<Rightarrow> float64" where
  "f_neg (Finite a) = Finite (- a)"
| "f_neg PosInf = NegInf"
| "f_neg NegInf = PosInf"
| "f_neg NaN = NaN"

fun f_add :: "float64 \<Rightarrow> float64 \<Rightarrow> float64" where
  "f_add NaN _ = NaN"
| "f_add _ NaN = NaN"
| "f_add PosInf NegInf = NaN"
| "f_add NegInf PosInf = NaN"
| "f_add PosInf _ = PosInf"
| "f_add _ PosInf = PosInf"
| "f_add NegInf _ = NegInf"
| "f_add _ NegInf = NegInf"
| "f_add (Finite a) (Finite b) = round64 (a + b)"

definition f_sub :: "float64 \<Rightarrow> float64 \<Rightarrow> float64" where
  "f_sub x y = f_add x (f_neg y)"

text \<open>The sign of a float that is not a NaN: \<open>1\<close>, \<open>0\<close> or \<open>- 1\<close>.\<close>

fun f_sgn :: "float64 \<Rightarrow> int" where
  "f_sgn (Finite a) = (if 0 < a then 1 else if a < 0 then - 1 else 0)"
| "f_sgn PosInf = 1"
| "f_sgn NegInf = - 1"
| "f_sgn NaN = 0"

fun f_mul :: "float64 \<Rightarrow> float64 \<Rightarrow> float64" where
  "f_mul NaN _ = NaN"
| "f_mul _ NaN = NaN"
| "f_mul (Finite a) (Finite b) = round64 (a * b)"
| "f_mul x y =
     (let s = f_sgn x * f_sgn y
      in if s = 0 then NaN else if 0 < s then PosInf else NegInf)"

text \<open>
  Division. The program divides by the constants \<open>100\<close> and \<^verbatim>\<open>24*time.Hour\<close> and by
  a power of ten only; a zero divisor is read as \<open>+0\<close>.
\<close>

fun f_div :: "float64 \<Rightarrow> float64 \<Rightarrow> float64" where
  "f_div NaN _ = NaN"
| "f_div _ NaN = NaN"
| "f_div (Finite a) (Finite b) =
     (if b = 0 then (if a = 0 then NaN else if 0 < a then PosInf else NegInf)
      else round64 (a / b))"
| "f_div (Finite a) _ = Finite 0"
| "f_div x (Finite b) =
     (if 0 \<le> f_sgn x * (if b < 0 then - 1 else 1) then PosInf else NegInf)"
| "f_div _ _ = NaN"

text \<open>The comparisons \<^verbatim>\<open><\<close> and \<^verbatim>\<open>>\<close>: false as soon as one side is a NaN.\<close>

fun f_lt :: "float64 \<Rightarrow> float64 \<Rightarrow> bool" where
  "f_lt NaN _ = False"
| "f_lt _ NaN = False"
| "f_lt (Finite a) (Finite b) = (a < b)"
| "f_lt NegInf NegInf = False"
| "f_lt NegInf _ = True"
| "f_lt PosInf _ = False"
| "f_lt _ PosInf = True"
| "f_lt _ NegInf = False"

definition f_gt :: "float64 \<Rightarrow> float64 \<Rightarrow> bool" where
  "f_gt x y = f_lt y x"

text \<open>\<^verbatim>\<open>math.IsNaN(f)\<close> and \<^verbatim>\<open>math.IsInf(f, 0)\<close>.\<close>

definition IsNaN :: "float64 \<Rightarrow> bool" where
  "IsNaN f = (f = NaN)"

definition IsInf :: "float64 \<Rightarrow> bool" where
  "IsInf f = (f = PosInf \<or> f = NegInf)"

text \<open>
  \<^verbatim>\<open>math.Round\<close>: the nearest integer, halves away from zero; infinities and NaN are
  returned as they are. The result is an integer of no more significant bits than the
  argument, so it needs no rounding to \<^verbatim>\<open>float64\<close>.
\<close>

definition round_half_away :: "rat \<Rightarrow> int" where
  "round_half_away q = (if 0 \<le> q then \<lfloor>q + 1 / 2\<rfloor> else - \<lfloor>- q + 1 / 2\<rfloor>)"

fun Round :: "float64 \<Rightarrow> float64" where
  "Round (Finite a) = Finite (of_int (round_half_away a))"
| "Round x = x"

text \<open>
  The conversions \<^verbatim>\<open>int64(f)\<close> (also \<^verbatim>\<open>time.Duration(f)\<close>) and \<^verbatim>\<open>uint64(f)\<close> drop the
  fraction. Where the truncated value does not fit the integer type, or \<open>f\<close> is an
  infinity or a NaN, the Go specification leaves the result to the implementation
  (the conversion succeeds all the same); \<open>indefinite64\<close> is what amd64 gives for
  \<^verbatim>\<open>int64\<close>. No theorem below depends on the choice of this value.
\<close>

definition toward_zero :: "rat \<Rightarrow> int" where
  "toward_zero q = (if 0 \<le> q then \<lfloor>q\<rfloor> else - \<lfloor>- q\<rfloor>)"

definition indefinite64 :: "64 word" where
  "indefinite64 = 0x8000000000000000"

fun int64_of_float64 :: "float64 \<Rightarrow> int64" where
  "int64_of_float64 (Finite a) =
     (if MinInt64 \<le> toward_zero a \<and> toward_zero a \<le> MaxInt64 then word_of_int (toward_zero a)
      else indefinite64)"
| "int64_of_float64 _ = indefinite64"

fun uint64_of_float64 :: "float64 \<Rightarrow> uint64" where
  "uint64_of_float64 (Finite a) =
     (if 0 \<le> toward_zero a \<and> toward_zero a < 2 ^ 64 then word_of_int (toward_zero a)
      else indefinite64)"
| "uint64_of_float64 _ = indefinite64"

subsection \<open>strconv.ParseFloat\<close>

text \<open>
  \<^verbatim>\<open>strconv.ParseFloat(s, 64)\<close>, after \<^verbatim>\<open>strconv/atof.go\<close>. It accepts the special
  values (\<^verbatim>\<open>inf\<close>, \<^verbatim>\<open>infinity\<close>, \<^verbatim>\<open>nan\<close> in any case, the infinities signed), decimal
  numbers with an optional exponent, hexadecimal numbers with a \<^verbatim>\<open>p\<close> exponent, and
  underscores between digits; it fails with \<open>ErrSyntax\<close> on anything else and with
  \<open>ErrRange\<close> when the number rounds to an infinity. The library returns the
  correctly rounded value; the model computes it as \<open>round64\<close> of the exact value of
  the literal, where the library keeps 19 digits and a flag for the rest.
\<close>

datatype NumError = ErrSyntax | ErrRange

fun commonPrefixLenIgnoreCase :: "string \<Rightarrow> string \<Rightarrow> nat" where
  "commonPrefixLenIgnoreCase (c # s) (p # prefix) =
     (if asciiLower c = byte p then Suc (commonPrefixLenIgnoreCase s prefix) else 0)"
| "commonPrefixLenIgnoreCase _ _ = 0"

definition special_inf :: "float64 \<Rightarrow> nat \<Rightarrow> string \<Rightarrow> (float64 \<times> nat) option" where
  "special_inf v nsign s =
     (let n = commonPrefixLenIgnoreCase s ''infinity'';
          n' = (if 3 < n \<and> n < 8 then 3 else n)
      in if n' = 3 \<or> n' = 8 then Some (v, nsign + n') else None)"

text \<open>The value and the number of bytes read, when \<open>s\<close> starts with a special value.\<close>

definition special :: "string \<Rightarrow> (float64 \<times> nat) option" where
  "special s =
     (case s of
        [] \<Rightarrow> None
      | c # t \<Rightarrow>
          if c = CHR ''+'' then special_inf PosInf 1 t
          else if c = CHR ''-'' then special_inf NegInf 1 t
          else if c = CHR ''i'' \<or> c = CHR ''I'' then special_inf PosInf 0 s
          else if c = CHR ''n'' \<or> c = CHR ''N'' then
            (if commonPrefixLenIgnoreCase s ''nan'' = 3 then Some (NaN, 3) else None)
          else None)"

text \<open>
  The loop over the digits of the mantissa. The state is: whether a point and whether
  a digit were seen, whether an underscore was, the digits read so far as a number and
  how many of them came after the point. It returns where it stopped.
\<close>

fun readMantissa ::
  "nat \<Rightarrow> string \<Rightarrow> bool \<Rightarrow> bool \<Rightarrow> bool \<Rightarrow> nat \<Rightarrow> nat \<Rightarrow> bool \<times> bool \<times> nat \<times> nat \<times> string"
where
  "readMantissa base [] sawdot sawdigits us m fd = (sawdigits, us, m, fd, [])"
| "readMantissa base (c # cs) sawdot sawdigits us m fd =
     (if c = CHR ''_'' then readMantissa base cs sawdot sawdigits True m fd
      else if c = CHR ''.'' then
        (if sawdot then (sawdigits, us, m, fd, c # cs)
         else readMantissa base cs True sawdigits us m fd)
      else if isDigit c then
        readMantissa base cs sawdot True us (m * base + digitVal c) (if sawdot then Suc fd else fd)
      else if base = 16 \<and> isHexLetter c then
        readMantissa base cs sawdot True us (m * 16 + hexLetterVal c) (if sawdot then Suc fd else fd)
      else (sawdigits, us, m, fd, c # cs))"

text \<open>The digits of the exponent; the exponent stops growing at 10000.\<close>

fun readExponent :: "string \<Rightarrow> bool \<Rightarrow> nat \<Rightarrow> bool \<times> nat \<times> string" where
  "readExponent [] us e = (us, e, [])"
| "readExponent (c # cs) us e =
     (if c = CHR ''_'' then readExponent cs True e
      else if isDigit c then readExponent cs us (if e < 10000 then e * 10 + digitVal c else e)
      else (us, e, c # cs))"

fun underscoreOK_loop :: "bool \<Rightarrow> char \<Rightarrow> string \<Rightarrow> bool" where
  "underscoreOK_loop hex saw [] = (saw \<noteq> CHR ''_'')"
| "underscoreOK_loop hex saw (c # cs) =
     (if isDigit c \<or> (hex \<and> isHexLetter c) then underscoreOK_loop hex (CHR ''0'') cs
      else if c = CHR ''_'' then
        (if saw \<noteq> CHR ''0'' then False else underscoreOK_loop hex (CHR ''_'') cs)
      else if saw = CHR ''_'' then False
      else underscoreOK_loop hex (CHR ''!'') cs)"

definition dropSign :: "string \<Rightarrow> string" where
  "dropSign s = (case s of [] \<Rightarrow> [] | c # t \<Rightarrow> if c = CHR ''+'' \<or> c = CHR ''-'' then t else s)"

text \<open>Underscores must separate digits (a base prefix counts as a digit).\<close>

definition underscoreOK :: "string \<Rightarrow> bool" where
  "underscoreOK s =
     (let s1 = dropSign s;
          pre = (case s1 of c0 # c1 # _ \<Rightarrow> c0 = CHR ''0'' \<and> lower c1 \<in> {byte (CHR ''b''), byte (CHR ''o''), byte (CHR ''x'')}
                 | _ \<Rightarrow> False);
          hex = (case s1 of c0 # c1 # _ \<Rightarrow> c0 = CHR ''0'' \<and> lower c1 = byte (CHR ''x'') | _ \<Rightarrow> False)
      in underscoreOK_loop hex (if pre then CHR ''0'' else CHR ''^'') (if pre then drop 2 s1 else s1))"

text \<open>
  \<open>readFloat s\<close> is \<open>Some (neg, hex, m, e, n)\<close> when \<open>s\<close> starts with a number: its
  sign, whether it is hexadecimal, and its magnitude \<open>m * 10 ^ e\<close> (\<open>m * 2 ^ e\<close> when
  hexadecimal), read from the first \<open>n\<close> bytes.
\<close>

definition readFloat :: "string \<Rightarrow> (bool \<times> bool \<times> nat \<times> int \<times> nat) option" where
  "readFloat s =
     (if s = [] then None
      else
        let neg = (hd s = CHR ''-'');
            s1 = dropSign s;
            hex = (case s1 of c0 # c1 # _ # _ \<Rightarrow> c0 = CHR ''0'' \<and> lower c1 = byte (CHR ''x'') | _ \<Rightarrow> False);
            s2 = (if hex then drop 2 s1 else s1)
        in case readMantissa (if hex then 16 else 10) s2 False False False 0 0 of
             (sawdigits, us, m, fd, s3) \<Rightarrow>
               if \<not> sawdigits then None
               else
                 let dp = - int fd * (if hex then 4 else 1);
                     expChar = (if hex then CHR ''p'' else CHR ''e'')
                 in if s3 \<noteq> [] \<and> lower (hd s3) = byte expChar then
                      (let s4 = tl s3
                       in if s4 = [] then None
                          else
                            let esign = (if hd s4 = CHR ''-'' then - 1 else 1);
                                s5 = dropSign s4
                            in if s5 = [] \<or> \<not> isDigit (hd s5) then None
                               else
                                 case readExponent s5 us 0 of
                                   (us', e, s6) \<Rightarrow>
                                     let n = length s - length s6
                                     in if us' \<and> \<not> underscoreOK (take n s) then None
                                        else Some (neg, hex, m, dp + int e * esign, n))
                    else if hex then None
                    else
                      let n = length s - length s3
                      in if us \<and> \<not> underscoreOK (take n s) then None
                         else Some (neg, hex, m, dp, n))"

definition pow10 :: "int \<Rightarrow> rat" where
  "pow10 e = (if 0 \<le> e then 10 ^ nat e else 1 / 10 ^ nat (- e))"

definition ParseFloat :: "string \<Rightarrow> NumError + float64" where
  "ParseFloat s =
     (case special s of
        Some (v, n) \<Rightarrow> if n = length s then Inr v else Inl ErrSyntax
      | None \<Rightarrow>
          (case readFloat s of
             None \<Rightarrow> Inl ErrSyntax
           | Some (neg, hex, m, e, n) \<Rightarrow>
               if n \<noteq> length s then Inl ErrSyntax
               else
                 let q = of_nat m * (if hex then pow2 e else pow10 e);
                     v = round64 (if neg then - q else q)
                 in if IsInf v then Inl ErrRange else Inr v))"

subsection \<open>time.ParseDuration\<close>

text \<open>
  \<^verbatim>\<open>time.ParseDuration\<close>, after \<^verbatim>\<open>time/format.go\<close>: an optional sign, then either
  the single byte \<^verbatim>\<open>0\<close> or one or more numbers, each with an optional fraction and a
  unit among \<^verbatim>\<open>ns\<close>, \<^verbatim>\<open>us\<close> (also written with U+00B5 or U+03BC), \<^verbatim>\<open>ms\<close>, \<^verbatim>\<open>s\<close>,
  \<^verbatim>\<open>m\<close>, \<^verbatim>\<open>h\<close>. The sum is accumulated in a \<^verbatim>\<open>uint64\<close>.
\<close>

definition unitMap :: "string \<Rightarrow> uint64 option" where
  "unitMap u =
     (if u = ''ns'' then Some 1
      else if u = ''us'' then Some 1000
      else if u = [CHR 0xC2, CHR 0xB5, CHR ''s''] then Some 1000
      else if u = [CHR 0xCE, CHR 0xBC, CHR ''s''] then Some 1000
      else if u = ''ms'' then Some 1000000
      else if u = ''s'' then Some 1000000000
      else if u = ''m'' then Some 60000000000
      else if u = ''h'' then Some 3600000000000
      else None)"

text \<open>\<^verbatim>\<open>leadingInt\<close>: the leading digits as a number, \<open>None\<close> when it exceeds \<open>2 ^ 63\<close>.\<close>

fun leadingInt :: "uint64 \<Rightarrow> string \<Rightarrow> (uint64 \<times> string) option" where
  "leadingInt x [] = Some (x, [])"
| "leadingInt x (c # cs) =
     (if \<not> isDigit c then Some (x, c # cs)
      else if 2 ^ 63 div 10 < x then None
      else
        let x' = x * 10 + word_of_nat (digitVal c)
        in if 2 ^ 63 < x' then None else leadingInt x' cs)"

text \<open>
  \<^verbatim>\<open>leadingFraction\<close>: the leading digits as a number \<open>x\<close> and a scale, the value
  being \<open>x / scale\<close>; digits that would overflow \<open>x\<close> are read and dropped.
\<close>

fun leadingFraction :: "uint64 \<Rightarrow> float64 \<Rightarrow> bool \<Rightarrow> string \<Rightarrow> uint64 \<times> float64 \<times> string" where
  "leadingFraction x scale overflow [] = (x, scale, [])"
| "leadingFraction x scale overflow (c # cs) =
     (if \<not> isDigit c then (x, scale, c # cs)
      else if overflow then leadingFraction x scale overflow cs
      else if (2 ^ 63 - 1) div 10 < x then leadingFraction x scale True cs
      else
        let y = x * 10 + word_of_nat (digitVal c)
        in if 2 ^ 63 < y then leadingFraction x scale True cs
           else leadingFraction y (f_mul scale (Finite 10)) overflow cs)"

definition isUnitByte :: "char \<Rightarrow> bool" where
  "isUnitByte c = (\<not> (c = CHR ''.'' \<or> isDigit c))"

text \<open>
  The optional fraction after the integer part: \<^verbatim>\<open>(\.[0-9]*)?\<close>. The result is the
  fraction as \<open>f / scale\<close>, whether a digit was read, and what follows.
\<close>

definition readFraction :: "string \<Rightarrow> uint64 \<times> float64 \<times> bool \<times> string" where
  "readFraction s1 =
     (if s1 \<noteq> [] \<and> hd s1 = CHR ''.'' then
        (case leadingFraction 0 (Finite 1) False (tl s1) of
           (f, scale, r) \<Rightarrow> (f, scale, length (tl s1) \<noteq> length r, r))
      else (0, Finite 1, False, s1))"

text \<open>
  The value \<open>v + f / scale\<close> in the unit \<open>unit\<close>, in nanoseconds; the fraction is
  computed in \<^verbatim>\<open>float64\<close>.
\<close>

definition scaleByUnit :: "string \<Rightarrow> uint64 \<Rightarrow> uint64 \<Rightarrow> float64 \<Rightarrow> uint64 \<Rightarrow> error + uint64" where
  "scaleByUnit orig v f scale unit =
     (if 2 ^ 63 div unit < v then Inl (TimeInvalidDuration orig)
      else
        let v1 = v * unit
        in if 0 < f then
             (let v2 = v1 + uint64_of_float64
                        (f_mul (float64_of_uint64 f) (f_div (float64_of_uint64 unit) scale))
              in if 2 ^ 63 < v2 then Inl (TimeInvalidDuration orig) else Inr v2)
           else Inr v1)"

text \<open>
  One turn of the loop of \<^verbatim>\<open>ParseDuration\<close> on the non-empty rest \<open>s\<close> of the string
  \<open>orig\<close>: a number with its unit, in nanoseconds, and what follows it.
\<close>

definition parseComponent :: "string \<Rightarrow> string \<Rightarrow> error + (uint64 \<times> string)" where
  "parseComponent orig s =
     (if \<not> (hd s = CHR ''.'' \<or> isDigit (hd s)) then Inl (TimeInvalidDuration orig)
      else
        (case leadingInt 0 s of
           None \<Rightarrow> Inl (TimeInvalidDuration orig)
         | Some (v, s1) \<Rightarrow>
             (case readFraction s1 of
                (f, scale, post, s2) \<Rightarrow>
                  if length s = length s1 \<and> \<not> post then Inl (TimeInvalidDuration orig)
                  else if takeWhile isUnitByte s2 = [] then Inl (TimeMissingUnit orig)
                  else
                    (case unitMap (takeWhile isUnitByte s2) of
                       None \<Rightarrow> Inl (TimeUnknownUnit (takeWhile isUnitByte s2) orig)
                     | Some unit \<Rightarrow>
                         (case scaleByUnit orig v f scale unit of
                            Inl e \<Rightarrow> Inl e
                          | Inr v' \<Rightarrow> Inr (v', dropWhile isUnitByte s2))))))"

text \<open>Each turn of the loop consumes at least the unit, so the loop terminates.\<close>

lemma leadingInt_length: "leadingInt x s = Some (v, r) \<Longrightarrow> length r \<le> length s"
  by (induction x s rule: leadingInt.induct) (auto simp: Let_def split: if_splits)

lemma leadingFraction_length:
  "leadingFraction x scale ov s = (f, scale', r) \<Longrightarrow> length r \<le> length s"
  by (induction x scale ov s rule: leadingFraction.induct) (auto simp: Let_def split: if_splits)

lemma dropWhile_shorter: "takeWhile P s \<noteq> [] \<Longrightarrow> length (dropWhile P s) < length s"
  by (cases s) (auto simp: le_imp_less_Suc length_dropWhile_le split: if_splits)

lemma readFraction_length: "readFraction s1 = (f, scale, post, s2) \<Longrightarrow> length s2 \<le> length s1"
  by (auto simp: readFraction_def split: if_splits prod.splits dest!: leadingFraction_length)


lemma parseComponent_length:
  assumes "parseComponent orig s = Inr (v, r)"
  shows "length r < length s"
proof -
  from assms obtain v0 s1 where li: "leadingInt 0 s = Some (v0, s1)"
    by (auto simp: parseComponent_def split: if_splits option.splits)
  obtain f scale post s2 where fr: "readFraction s1 = (f, scale, post, s2)"
    by (metis prod_cases4)
  from assms li fr have "takeWhile isUnitByte s2 \<noteq> []" and "r = dropWhile isUnitByte s2"
    by (auto simp: parseComponent_def split: if_splits option.splits sum.splits)
  then have "length r < length s2"
    using dropWhile_shorter by blast
  with leadingInt_length [OF li] readFraction_length [OF fr] show ?thesis by simp
qed

function parseLoop :: "string \<Rightarrow> uint64 \<Rightarrow> string \<Rightarrow> error + uint64" where
  "parseLoop orig d s =
     (if s = [] then Inr d
      else
        (case parseComponent orig s of
           Inl e \<Rightarrow> Inl e
         | Inr (v, rest) \<Rightarrow>
             if 2 ^ 63 < d + v then Inl (TimeInvalidDuration orig)
             else parseLoop orig (d + v) rest))"
  by pat_completeness auto
termination
  by (relation "measure (\<lambda>(orig, d, s). length s)") (auto dest: parseComponent_length)

declare parseLoop.simps [simp del]

definition time_ParseDuration :: "string \<Rightarrow> error + Duration" where
  "time_ParseDuration s =
     (let neg = (s \<noteq> [] \<and> hd s = CHR ''-'');
          s1 = dropSign s
      in if s1 = ''0'' then Inr 0
         else if s1 = [] then Inl (TimeInvalidDuration s)
         else
           case parseLoop s 0 s1 of
             Inl e \<Rightarrow> Inl e
           | Inr d \<Rightarrow>
               if neg then Inr (- d)
               else if 2 ^ 63 - 1 < d then Inl (TimeInvalidDuration s)
               else Inr d)"

subsection \<open>The flag set of jsleep\<close>

text \<open>
  \<^verbatim>\<open>parseArgs\<close> binds four string variables and one boolean to two flag names each, all
  with the default \<^verbatim>\<open>""\<close> or \<^verbatim>\<open>false\<close> (lines 66 to 76). \<open>fs_Parse\<close> is
  \<^verbatim>\<open>flag.FlagSet.Parse\<close> on this flag set, after \<^verbatim>\<open>flag/flag.go\<close>: it stores the values of
  the flags in the variables and stops at the first argument that is not a flag (or
  after \<^verbatim>\<open>--\<close>); what is left are the positional arguments \<^verbatim>\<open>fs.Args()\<close>.
\<close>

record flagVars =
  jitterStr :: string
  rangeStr :: string
  minStr :: string
  maxStr :: string
  verbose :: bool

definition initialVars :: flagVars where
  "initialVars = \<lparr>jitterStr = [], rangeStr = [], minStr = [], maxStr = [], verbose = False\<rparr>"

datatype flagTarget = JitterVar | RangeVar | MinVar | MaxVar | VerboseVar

definition formal :: "string \<Rightarrow> flagTarget option" where
  "formal name =
     (if name = ''jitter'' \<or> name = ''j'' then Some JitterVar
      else if name = ''range'' \<or> name = ''r'' then Some RangeVar
      else if name = ''min'' \<or> name = ''m'' then Some MinVar
      else if name = ''max'' \<or> name = ''M'' then Some MaxVar
      else if name = ''verbose'' \<or> name = ''v'' then Some VerboseVar
      else None)"

text \<open>The name of a flag argument, with \<^verbatim>\<open>=value\<close> if it has one: what follows \<^verbatim>\<open>-\<close> or \<^verbatim>\<open>--\<close>.\<close>

definition flagName :: "string \<Rightarrow> string" where
  "flagName s = (if s ! 1 = CHR ''-'' then drop 2 s else drop 1 s)"

fun setString :: "flagTarget \<Rightarrow> string \<Rightarrow> flagVars \<Rightarrow> flagVars" where
  "setString JitterVar v vars = vars\<lparr>jitterStr := v\<rparr>"
| "setString RangeVar v vars = vars\<lparr>rangeStr := v\<rparr>"
| "setString MinVar v vars = vars\<lparr>minStr := v\<rparr>"
| "setString MaxVar v vars = vars\<lparr>maxStr := v\<rparr>"
| "setString VerboseVar v vars = vars"

text \<open>\<^verbatim>\<open>strconv.ParseBool\<close>, which sets a boolean flag written \<^verbatim>\<open>-v=value\<close>.\<close>

definition ParseBool :: "string \<Rightarrow> bool option" where
  "ParseBool str =
     (if str \<in> set [''1'', ''t'', ''T'', ''TRUE'', ''true'', ''True''] then Some True
      else if str \<in> set [''0'', ''f'', ''F'', ''FALSE'', ''false'', ''False''] then Some False
      else None)"

text \<open>A flag written \<^verbatim>\<open>name=value\<close> is split at the first \<^verbatim>\<open>=\<close> after its first byte.\<close>

definition splitEq :: "string \<Rightarrow> string \<times> string option" where
  "splitEq name =
     (case name of
        [] \<Rightarrow> (name, None)
      | c # t \<Rightarrow>
          if CHR ''='' \<in> set t then
            (c # takeWhile (\<lambda>x. x \<noteq> CHR ''='') t, Some (tl (dropWhile (\<lambda>x. x \<noteq> CHR ''='') t)))
          else (name, None))"


text \<open>One flag is stored: a boolean flag takes its value from \<^verbatim>\<open>=value\<close> only.\<close>

fun fs_Parse :: "flagVars \<Rightarrow> string list \<Rightarrow> error + (flagVars \<times> string list)" where
  "fs_Parse vars [] = Inr (vars, [])"
| "fs_Parse vars (s # args) =
     (if length s < 2 \<or> hd s \<noteq> CHR ''-'' then Inr (vars, s # args)
      else if s = ''--'' then Inr (vars, args)
      else if flagName s = [] \<or> hd (flagName s) = CHR ''-'' \<or> hd (flagName s) = CHR ''=''
        then Inl (FlagBadSyntax s)
      else
        (case formal (fst (splitEq (flagName s))) of
           None \<Rightarrow>
             if fst (splitEq (flagName s)) = ''help'' \<or> fst (splitEq (flagName s)) = ''h''
             then Inl FlagHelp
             else Inl (FlagNotDefined (fst (splitEq (flagName s))))
         | Some target \<Rightarrow>
             if target = VerboseVar then
               (case snd (splitEq (flagName s)) of
                  None \<Rightarrow> fs_Parse (vars\<lparr>verbose := True\<rparr>) args
                | Some v \<Rightarrow>
                    (case ParseBool v of
                       None \<Rightarrow> Inl (FlagInvalidBool v (fst (splitEq (flagName s))))
                     | Some b \<Rightarrow> fs_Parse (vars\<lparr>verbose := b\<rparr>) args))
             else
               (case snd (splitEq (flagName s)) of
                  Some v \<Rightarrow> fs_Parse (setString target v vars) args
                | None \<Rightarrow>
                    (case args of
                       [] \<Rightarrow> Inl (FlagNeedsArgument (fst (splitEq (flagName s))))
                     | v # args' \<Rightarrow> fs_Parse (setString target v vars) args'))))"

text \<open>The string variable that a flag is bound to (a boolean flag has none).\<close>

fun stringOf :: "flagTarget \<Rightarrow> flagVars \<Rightarrow> string" where
  "stringOf JitterVar vars = jitterStr vars"
| "stringOf RangeVar vars = rangeStr vars"
| "stringOf MinVar vars = minStr vars"
| "stringOf MaxVar vars = maxStr vars"
| "stringOf VerboseVar vars = []"

text \<open>
  The argument list without a string flag: every occurrence of the flag, under either of
  its names and together with its value, is removed from the arguments that
  \<^verbatim>\<open>fs.Parse\<close> reads as flags; the other arguments are kept, and so is everything from the
  point where \<^verbatim>\<open>fs.Parse\<close> stops (the first positional argument, \<^verbatim>\<open>--\<close>, or an argument that
  it rejects).
\<close>

fun withoutFlag :: "flagTarget \<Rightarrow> string list \<Rightarrow> string list" where
  "withoutFlag t [] = []"
| "withoutFlag t (s # args) =
     (if length s < 2 \<or> hd s \<noteq> CHR ''-'' then s # args
      else if s = ''--'' then s # args
      else if flagName s = [] \<or> hd (flagName s) = CHR ''-'' \<or> hd (flagName s) = CHR ''=''
        then s # args
      else
        (case formal (fst (splitEq (flagName s))) of
           None \<Rightarrow> s # args
         | Some target \<Rightarrow>
             if target = VerboseVar then s # withoutFlag t args
             else
               (case snd (splitEq (flagName s)) of
                  Some v \<Rightarrow> if target = t then withoutFlag t args else s # withoutFlag t args
                | None \<Rightarrow>
                    (case args of
                       [] \<Rightarrow> [s]
                     | v # args' \<Rightarrow>
                         if target = t then withoutFlag t args'
                         else s # v # withoutFlag t args'))))"

text \<open>The result of \<^verbatim>\<open>fs.Parse\<close> with the variable of a flag reset to the empty string.\<close>

definition emptied :: "flagTarget \<Rightarrow> error + (flagVars \<times> string list) \<Rightarrow> error + (flagVars \<times> string list)" where
  "emptied t res = (case res of Inl e \<Rightarrow> Inl e | Inr (vars, pos) \<Rightarrow> Inr (setString t [] vars, pos))"

subsection \<open>The program: parsing durations and percentages\<close>

definition Hour :: int where
  "Hour = 3600000000000"

text \<open>
  Line 208: \<^verbatim>\<open>const maxDays = float64(math.MaxInt64) / float64(24*time.Hour)\<close>, a
  constant of type \<^verbatim>\<open>float64\<close>.
\<close>

definition maxDays :: float64 where
  "maxDays = f_div (float64_const MaxInt64) (float64_const (24 * Hour))"

text \<open>
  \<^verbatim>\<open>parseDuration\<close>, lines 196 to 221. The last byte of a non-empty string, read as a
  rune, is a digit for \<^verbatim>\<open>unicode.IsDigit\<close> exactly when it is one of \<^verbatim>\<open>0\<close> to \<^verbatim>\<open>9\<close>.
\<close>

definition parseDuration :: "string \<Rightarrow> error + Duration" where
  "parseDuration s =
     (if s = [] then Inl EmptyDuration
      else if HasSuffix s (CHR ''d'') then
        (case ParseFloat (TrimSuffix s (CHR ''d'')) of
           Inl err \<Rightarrow> Inl (InvalidDuration s)
         | Inr num \<Rightarrow>
             if f_gt num maxDays \<or> f_lt num (f_neg maxDays) then Inl (DurationOutOfRange s)
             else Inr (int64_of_float64 (f_mul num (float64_const (24 * Hour)))))
      else time_ParseDuration (if isDigit (last s) then s @ ''s'' else s))"

text \<open>\<^verbatim>\<open>parsePercent\<close>, lines 223 to 235.\<close>

definition parsePercent :: "string \<Rightarrow> error + float64" where
  "parsePercent s =
     (if \<not> HasSuffix s (CHR ''%'') then Inl (PercentMustEndWithPercent s)
      else
        (case ParseFloat (TrimSuffix s (CHR ''%'')) of
           Inl err \<Rightarrow> Inl (InvalidPercent s)
         | Inr val \<Rightarrow>
             if f_lt val (Finite 0) then Inl JitterNegative
             else Inr (f_div val (Finite 100))))"

subsection \<open>The program: resolving the arguments\<close>

definition defaultJitterFraction :: float64 where
  "defaultJitterFraction = Finite (1 / 2)"

text \<open>
  Lines 160 to 171: the interval around \<open>base\<close> for a jitter fraction, computed in
  \<^verbatim>\<open>float64\<close> and checked against the range of \<^verbatim>\<open>int64\<close> before the conversion.
\<close>

definition jitterInterval :: "Duration \<Rightarrow> float64 \<Rightarrow> error + (Duration \<times> Duration)" where
  "jitterInterval base fraction =
     (let baseNs = float64_of_int64 base;
          delta = Round (f_mul baseNs fraction)
      in if IsNaN delta \<or> IsInf delta then Inl JitterOverflow
         else
           let lowNs = f_sub baseNs delta;
               highNs = f_add baseNs delta
           in if f_lt lowNs (float64_const MinInt64) \<or> f_gt lowNs (float64_const MaxInt64)
                 \<or> f_lt highNs (float64_const MinInt64) \<or> f_gt highNs (float64_const MaxInt64)
              then Inl JitterOverflow
              else Inr (int64_of_float64 lowNs, int64_of_float64 highNs))"

text \<open>Lines 150 to 159: the fraction is the flag's, else the positional one, else the default.\<close>

definition jitterFraction :: "string \<Rightarrow> string \<Rightarrow> error + float64" where
  "jitterFraction jitter positionalJitter =
     (if jitter \<noteq> [] then parsePercent jitter
      else if positionalJitter \<noteq> [] then parsePercent positionalJitter
      else Inr defaultJitterFraction)"

text \<open>Lines 141 to 179: the \<^verbatim>\<open>switch\<close> that computes the interval before clamping.\<close>

definition unclamped ::
  "string \<Rightarrow> string \<Rightarrow> bool \<Rightarrow> Duration \<Rightarrow> bool \<Rightarrow> Duration \<Rightarrow> bool \<Rightarrow> Duration \<Rightarrow> bool \<Rightarrow> Duration
     \<Rightarrow> error + (Duration \<times> Duration)"
where
  "unclamped jitter positionalJitter rangeSet rangeVal minSet minVal maxSet maxVal hasBase base =
     (if rangeSet then
        (if \<not> hasBase then Inl RangeRequiresBase else Inr (base - rangeVal, base + rangeVal))
      else if hasBase then
        (case jitterFraction jitter positionalJitter of
           Inl err \<Rightarrow> Inl err
         | Inr fraction \<Rightarrow> jitterInterval base fraction)
      else if minSet \<and> maxSet then Inr (minVal, maxVal)
      else Inl MissingDuration)"

text \<open>Lines 181 to 192: clamping to the bounds and to zero, then the emptiness check.\<close>

definition clampInterval ::
  "bool \<Rightarrow> Duration \<Rightarrow> bool \<Rightarrow> Duration \<Rightarrow> Duration \<times> Duration \<Rightarrow> error + (Duration \<times> Duration)"
where
  "clampInterval minSet minVal maxSet maxVal lh =
     (let (low1, high1) = (if minSet then (max_d (fst lh) minVal, max_d (snd lh) minVal) else lh);
          (low2, high2) = (if maxSet then (min_d low1 maxVal, min_d high1 maxVal) else (low1, high1));
          low3 = max_d low2 0;
          high3 = max_d high2 0
      in if high3 <s low3 then Inl EmptyInterval else Inr (low3, high3))"

text \<open>
  Lines 112 to 126 and 134 to 139: a value is parsed only when it is set; the variable
  keeps its zero value otherwise.
\<close>

definition parseIfSet :: "bool \<Rightarrow> string \<Rightarrow> error + Duration" where
  "parseIfSet isSet str = (if isSet then parseDuration str else Inr 0)"

definition parseBase :: "string list \<Rightarrow> error + (Duration \<times> bool)" where
  "parseBase pos =
     (if length pos = 1 \<or> length pos = 2 then
        (case parseDuration (pos ! 0) of Inl err \<Rightarrow> Inl err | Inr base \<Rightarrow> Inr (base, True))
      else Inr (0, False))"

text \<open>
  Lines 82 to 193 of \<^verbatim>\<open>parseArgs\<close>: from the positional arguments and the variables
  of the flags to the interval and the verbosity.
\<close>

definition resolve :: "string list \<Rightarrow> flagVars \<Rightarrow> error + (Duration \<times> Duration \<times> bool)" where
  "resolve pos vars =
     (if 2 < length pos then Inl TooManyPositional
      else
        let positionalJitter = (if length pos = 2 then pos ! 1 else []);
            jitterSet = (jitterStr vars \<noteq> []);
            rangeSet = (rangeStr vars \<noteq> []);
            minSet = (minStr vars \<noteq> []);
            maxSet = (maxStr vars \<noteq> [])
        in if jitterSet \<and> rangeSet then Inl JitterWithRange
           else if positionalJitter \<noteq> [] \<and> jitterSet then Inl JitterPositionalAndFlag
           else if positionalJitter \<noteq> [] \<and> rangeSet then Inl PositionalJitterWithRange
           else
             (case parseIfSet rangeSet (rangeStr vars) of
                Inl err \<Rightarrow> Inl err
              | Inr rangeVal \<Rightarrow>
                  (case parseIfSet minSet (minStr vars) of
                     Inl err \<Rightarrow> Inl err
                   | Inr minVal \<Rightarrow>
                       (case parseIfSet maxSet (maxStr vars) of
                          Inl err \<Rightarrow> Inl err
                        | Inr maxVal \<Rightarrow>
                            if minSet \<and> maxSet \<and> maxVal <s minVal then Inl MaxLessThanMin
                            else
                              (case parseBase pos of
                                 Inl err \<Rightarrow> Inl err
                               | Inr (base, hasBase) \<Rightarrow>
                                   (case unclamped (jitterStr vars) positionalJitter rangeSet rangeVal
                                           minSet minVal maxSet maxVal hasBase base of
                                      Inl err \<Rightarrow> Inl err
                                    | Inr lh \<Rightarrow>
                                        (case clampInterval minSet minVal maxSet maxVal lh of
                                           Inl err \<Rightarrow> Inl err
                                         | Inr (low, high) \<Rightarrow> Inr (low, high, verbose vars))))))))"

text \<open>\<^verbatim>\<open>parseArgs\<close>, lines 61 to 194.\<close>

definition parseArgs :: "string list \<Rightarrow> error + (Duration \<times> Duration \<times> bool)" where
  "parseArgs args =
     (case fs_Parse initialVars args of
        Inl err \<Rightarrow> Inl err
      | Inr (vars, pos) \<Rightarrow> resolve pos vars)"

subsection \<open>The program: choosing the duration\<close>

text \<open>
  The random source is the sequence of the results of \<^verbatim>\<open>rand.Read(buf[:])\<close>: the
  \<open>i\<close>-th call either fails (\<open>None\<close>) or fills the eight bytes of \<^verbatim>\<open>buf\<close>, given here as
  the number \<^verbatim>\<open>binary.LittleEndian.Uint64(buf[:])\<close> that the program reads from them.
\<close>

type_synonym randSource = "nat \<Rightarrow> uint64 option"

definition maxUint :: uint64 where
  "maxUint = NOT 0"

text \<open>Line 265: the threshold below which a draw is accepted.\<close>

definition limit :: "uint64 \<Rightarrow> uint64" where
  "limit n = maxUint - (maxUint mod n)"

text \<open>Lines 267 to 277: \<open>k\<close> more attempts, the next one being call \<open>i\<close> of the source.\<close>

fun attempts :: "randSource \<Rightarrow> uint64 \<Rightarrow> nat \<Rightarrow> nat \<Rightarrow> error + int64" where
  "attempts rnd n i 0 = Inl RandExhausted"
| "attempts rnd n i (Suc k) =
     (case rnd i of
        None \<Rightarrow> Inl RandReadFailed
      | Some v \<Rightarrow> if v < limit n then Inr (v mod n) else attempts rnd n (Suc i) k)"

text \<open>\<^verbatim>\<open>cryptoRandInt64\<close>, lines 258 to 278.\<close>

definition cryptoRandInt64 :: "randSource \<Rightarrow> int64 \<Rightarrow> error + int64" where
  "cryptoRandInt64 rnd n = (if n \<le>s 0 then Inl NNotPositive else attempts rnd n 0 1000)"

text \<open>\<^verbatim>\<open>chooseSleepDuration\<close>, lines 237 to 256.\<close>

definition chooseSleepDuration :: "randSource \<Rightarrow> Duration \<Rightarrow> Duration \<Rightarrow> error + Duration" where
  "chooseSleepDuration rnd low high =
     (if high = low then Inr (max_d low 0)
      else if high <s low then Inl LowAboveHigh
      else
        let width = high - low
        in if low + width = word_of_int MaxInt64 then Inr high
           else
             (case cryptoRandInt64 rnd (width + 1) of
                Inl err \<Rightarrow> Inl err
              | Inr offset \<Rightarrow> Inr (max_d (low + offset) 0)))"

text \<open>Two random sources: one whose every read fails, one that always draws \<open>v\<close>.\<close>

definition failingSource :: randSource where
  "failingSource = (\<lambda>i. None)"

definition constSource :: "uint64 \<Rightarrow> randSource" where
  "constSource v = (\<lambda>i. Some v)"

text \<open>A source that delivers the values of a list, one for each read, and then fails.\<close>

definition listSource :: "uint64 list \<Rightarrow> randSource" where
  "listSource vs = (\<lambda>i. if i < length vs then Some (vs ! i) else None)"

section \<open>Evaluation\<close>

text \<open>The defining equations that evaluate the parsers on a given string.\<close>

lemmas char_defs = byte_def isDigit_def digitVal_def isHexLetter_def hexLetterVal_def asciiLower_def lower_def
  HasSuffix_def TrimSuffix_def isUnitByte_def dropSign_def

lemmas time_defs = time_ParseDuration_def parseLoop.simps parseComponent_def readFraction_def
  scaleByUnit_def unitMap_def

lemmas flag_defs = initialVars_def flagName_def splitEq_def formal_def ParseBool_def

lemmas resolve_defs = resolve_def parseIfSet_def parseBase_def unclamped_def clampInterval_def
  jitterFraction_def max_d_def min_d_def word_sless_alt word_sle_eq

lemma attempts_numeral:
  "attempts rnd n i (numeral k) =
     (case rnd i of
        None \<Rightarrow> Inl RandReadFailed
      | Some v \<Rightarrow> if v < limit n then Inr (v mod n) else attempts rnd n (Suc i) (pred_numeral k))"
  by (simp add: numeral_eq_Suc)

section \<open>Rounding to float64\<close>

text \<open>
  \<open>round64\<close> finds the binary exponent of its argument, leaves the numbers with at
  most 53 significant bits as they are, and rounds any other to a neighbour given by a
  certificate: the exponent and the integer nearest to the scaled number.
\<close>

lemma pow2_powi: "pow2 e = 2 powi e"
  by (simp add: pow2_def power_int_def inverse_eq_divide power_one_over)

lemma pow2_pos [simp]: "0 < pow2 e"
  by (simp add: pow2_powi)

lemma pow2_nonzero [simp]: "pow2 e \<noteq> 0"
  by (simp add: pow2_powi)

lemma pow2_add: "pow2 (a + b) = pow2 a * pow2 b"
  by (simp add: pow2_powi power_int_add)

lemma pow2_diff: "pow2 (a - b) = pow2 a / pow2 b"
  by (simp add: pow2_powi power_int_diff)

lemma pow2_less: "a < b \<Longrightarrow> pow2 a < pow2 b"
  by (simp add: pow2_powi power_int_strict_increasing)

lemma pow2_le: "a \<le> b \<Longrightarrow> pow2 a \<le> pow2 b"
  by (simp add: pow2_powi power_int_increasing)

lemma pow2_nat: "pow2 (int n) = 2 ^ n"
  by (simp add: pow2_def)

lemma find_exp_spec:
  assumes "pow2 e0 \<le> q" and "q < pow2 (e0 + 2 ^ k)"
  shows "pow2 (find_exp k e0 q) \<le> q \<and> q < pow2 (find_exp k e0 q + 1)"
  using assms
proof (induction k arbitrary: e0)
  case 0
  then show ?case by simp
next
  case (Suc k)
  show ?case
  proof (cases "pow2 (e0 + 2 ^ k) \<le> q")
    case True
    have "e0 + 2 ^ k + 2 ^ k = e0 + 2 ^ Suc k"
      by simp
    then have "pow2 (e0 + 2 ^ k + 2 ^ k) = pow2 (e0 + 2 ^ Suc k)"
      by (rule arg_cong)
    with Suc.prems(2) have "q < pow2 (e0 + 2 ^ k + 2 ^ k)"
      by (simp only:)
    with True Suc.IH [of "e0 + 2 ^ k"] show ?thesis
      by simp
  next
    case False
    then have "q < pow2 (e0 + 2 ^ k)"
      by simp
    with False Suc.prems(1) Suc.IH [of e0] show ?thesis
      by simp
  qed
qed

lemma exponent_unique:
  assumes "pow2 e \<le> q" "q < pow2 (e + 1)" "pow2 e' \<le> q" "q < pow2 (e' + 1)"
  shows "e = e'"
proof (rule ccontr)
  assume "e \<noteq> e'"
  then consider "e + 1 \<le> e'" | "e' + 1 \<le> e"
    by linarith
  then show False
  proof cases
    case 1
    then have "pow2 (e + 1) \<le> pow2 e'" by (rule pow2_le)
    with assms show False by simp
  next
    case 2
    then have "pow2 (e' + 1) \<le> pow2 e" by (rule pow2_le)
    with assms show False by simp
  qed
qed

lemma exponent64_eq:
  assumes "- 1022 \<le> e" "e \<le> 1025" "pow2 e \<le> a" "a < pow2 (e + 1)"
  shows "exponent64 a = e"
proof -
  have lo: "pow2 (- 1022) \<le> a"
    using pow2_le [OF assms(1)] assms(3) by simp
  have "pow2 (e + 1) \<le> pow2 (- 1022 + 2 ^ 11)"
    using assms(2) by (intro pow2_le) simp
  with assms(4) have hi: "a < pow2 (- 1022 + 2 ^ 11)"
    by simp
  from find_exp_spec [OF lo hi] assms(3,4)
  have "find_exp 11 (- 1022) a = e"
    by (intro exponent_unique [of _ a]) simp_all
  with lo show ?thesis
    by (simp add: exponent64_def)
qed

lemma exponent64_spec:
  assumes "pow2 (- 1022) \<le> a" "a < pow2 1026"
  shows "pow2 (exponent64 a) \<le> a \<and> a < pow2 (exponent64 a + 1)"
proof -
  have "a < pow2 (- 1022 + 2 ^ 11)"
    using assms(2) by simp
  from find_exp_spec [OF assms(1) this] assms(1) show ?thesis
    by (simp add: exponent64_def)
qed

lemma round_even_near:
  assumes "of_int n - 1 / 2 < x" and "x < of_int n + 1 / 2"
  shows "round_even x = n"
proof (cases "of_int n \<le> x")
  case True
  with assms have "\<lfloor>x\<rfloor> = n"
    by (intro floor_unique) simp_all
  with assms show ?thesis
    by (simp add: round_even_def Let_def)
next
  case False
  with assms have f: "\<lfloor>x\<rfloor> = n - 1"
    by (intro floor_unique) simp_all
  have "\<not> x - of_int (n - 1) < 1 / 2"
    using assms by simp
  moreover have "1 / 2 < x - of_int (n - 1)"
    using assms by simp
  ultimately show ?thesis
    by (simp add: round_even_def Let_def f)
qed

lemma round_even_of_int [simp]: "round_even (of_int n) = n"
  by (rule round_even_near) simp_all

lemma round64_near:
  assumes "0 < q" "- 1022 \<le> e" "e \<le> 1025" "pow2 e \<le> q" "q < pow2 (e + 1)"
    and "of_int n - 1 / 2 < q / pow2 (e - 52)" "q / pow2 (e - 52) < of_int n + 1 / 2"
    and "of_int n * pow2 (e - 52) < pow2 1024"
  shows "round64 q = Finite (of_int n * pow2 (e - 52))"
proof -
  have "exponent64 \<bar>q\<bar> = e"
    using assms(1-5) by (simp add: exponent64_eq)
  moreover have "round_even (\<bar>q\<bar> / pow2 (e - 52)) = n"
    using assms(1,6,7) by (simp add: round_even_near)
  ultimately show ?thesis
    using assms(1,8) by (simp add: round64_def Let_def)
qed

lemma round64_neg: "round64 (- q) = f_neg (round64 q)"
  by (simp add: round64_def Let_def)

lemma round64_dyadic:
  assumes m: "0 < m" "m < 2 ^ 53" and k: "- 1074 \<le> k"
    and fin: "of_int m * pow2 k < pow2 1024"
  shows "round64 (of_int m * pow2 k) = Finite (of_int m * pow2 k)"
proof -
  let ?a = "of_int m * pow2 k :: rat"
  have pos: "0 < ?a"
    using m(1) by simp
  define e where "e = exponent64 ?a"
  have scaled: "\<exists>j. ?a / pow2 (e - 52) = of_int j"
  proof (cases "?a < pow2 (- 1022)")
    case True
    then have "e = - 1022"
      by (simp add: e_def exponent64_def)
    moreover have "pow2 (k + 1074) = pow2 k / pow2 (- 1074)"
      using pow2_diff [of k "- 1074"] by simp
    ultimately have "?a / pow2 (e - 52) = of_int m * pow2 (k + 1074)"
      by simp
    also have "\<dots> = of_int (m * 2 ^ nat (k + 1074))"
      using k by (simp add: pow2_def)
    finally show ?thesis by blast
  next
    case False
    then have lo: "pow2 (- 1022) \<le> ?a"
      by simp
    have "pow2 1024 \<le> pow2 1026"
      by (intro pow2_le) simp
    with fin have "?a < pow2 1026"
      by simp
    from exponent64_spec [OF lo this] have e: "pow2 e \<le> ?a"
      by (simp add: e_def)
    have "e - 52 \<le> k"
    proof (rule ccontr)
      assume "\<not> e - 52 \<le> k"
      then have "k + 53 \<le> e"
        by simp
      then have "pow2 (k + 53) \<le> pow2 e"
        by (rule pow2_le)
      moreover have "(of_int m :: rat) < of_int (2 ^ 53)"
        using m(2) by (simp only: of_int_less_iff)
      then have "(of_int m :: rat) < pow2 53"
        by (simp add: pow2_def)
      then have "?a < pow2 53 * pow2 k"
        by simp
      then have "?a < pow2 (k + 53)"
        by (simp add: pow2_add mult.commute)
      ultimately show False
        using e by simp
    qed
    have "?a / pow2 (e - 52) = of_int m * pow2 (k - (e - 52))"
      by (simp add: pow2_diff)
    also have "\<dots> = of_int (m * 2 ^ nat (k - (e - 52)))"
      using \<open>e - 52 \<le> k\<close> by (simp add: pow2_def)
    finally show ?thesis by blast
  qed
  then obtain j where j: "?a / pow2 (e - 52) = of_int j"
    by blast
  from j have a: "?a = of_int j * pow2 (e - 52)"
    by (simp add: nonzero_divide_eq_eq)
  have "round_even (?a / pow2 (e - 52)) = j"
    by (simp only: j round_even_of_int)
  with a have "of_int (round_even (?a / pow2 (e - 52))) * pow2 (e - 52) = ?a"
    by simp
  with pos fin show ?thesis
    by (simp add: round64_def Let_def e_def [symmetric] abs_of_pos del: of_int_mult)
qed

lemma round64_int:
  assumes "\<bar>i\<bar> \<le> 2 ^ 53"
  shows "round64 (of_int i) = Finite (of_int i)"
proof -
  have p: "round64 (of_int j) = Finite (of_int j)" if "0 < j" "j \<le> 2 ^ 53" for j :: int
  proof (cases "j = 2 ^ 53")
    case True
    have "round64 (of_int 1 * pow2 53) = Finite (of_int 1 * pow2 53)"
      by (rule round64_dyadic) (simp_all add: pow2_def)
    then show ?thesis
      using True by (simp add: pow2_def)
  next
    case False
    with that have "j < 2 ^ 53"
      by simp
    have "(of_int j :: rat) < of_int (2 ^ 53)"
      using \<open>j < 2 ^ 53\<close> by (simp only: of_int_less_iff)
    also have "\<dots> < pow2 1024"
      by (simp add: pow2_def)
    finally have "round64 (of_int j * pow2 0) = Finite (of_int j * pow2 0)"
      using that(1) \<open>j < 2 ^ 53\<close> by (intro round64_dyadic) (simp_all add: pow2_def)
    then show ?thesis
      by (simp add: pow2_def)
  qed
  consider "i = 0" | "0 < i" | "i < 0"
    by linarith
  then show ?thesis
  proof cases
    case 1
    then show ?thesis by (simp add: round64_def)
  next
    case 2
    with assms show ?thesis by (intro p) simp_all
  next
    case 3
    with assms have "round64 (of_int (- i)) = Finite (of_int (- i))"
      by (intro p) simp_all
    then have "round64 (- of_int i) = Finite (- of_int i)"
      by simp
    then have "f_neg (round64 (of_int i)) = Finite (- of_int i)"
      by (simp add: round64_neg)
    then show ?thesis
      by (cases "round64 (of_int i)") simp_all
  qed
qed

lemma floor_rat_numeral_div [simp]:
  "\<lfloor>numeral a / numeral b :: rat\<rfloor> = numeral a div numeral b"
  by (metis floor_divide_of_int_eq of_int_numeral)

lemma round64_numeral [simp]:
  "numeral k \<le> (2 ^ 53 :: int) \<Longrightarrow> round64 (numeral k) = Finite (numeral k)"
  using round64_int [of "numeral k"] by simp

lemma round64_neg_numeral [simp]:
  "numeral k \<le> (2 ^ 53 :: int) \<Longrightarrow> round64 (- numeral k) = Finite (- numeral k)"
  using round64_int [of "- numeral k"] by simp

lemma round64_zero [simp]: "round64 0 = Finite 0"
  by (simp add: round64_def)

lemma round64_one [simp]: "round64 1 = Finite 1"
  using round64_int [of 1] by simp

lemma float64_const_MinInt64: "float64_const MinInt64 = Finite (- (2 ^ 63))"
proof -
  have "round64 (of_int 1 * pow2 63) = Finite (of_int 1 * pow2 63)"
    by (rule round64_dyadic) (simp_all add: pow2_def)
  then have "round64 (2 ^ 63) = Finite (2 ^ 63)"
    by (simp add: pow2_def)
  then have "round64 (- (2 ^ 63)) = Finite (- (2 ^ 63))"
    by (simp only: round64_neg f_neg.simps)
  then show ?thesis
    by (simp add: float64_const_def MinInt64_def)
qed

lemma float64_const_MaxInt64: "float64_const MaxInt64 = Finite (2 ^ 63)"
proof -
  have "round64 (2 ^ 63 - 1) = Finite (of_int (2 ^ 53) * pow2 (62 - 52))"
    by (rule round64_near) (simp_all add: pow2_def)
  then show ?thesis
    by (simp add: float64_const_def MaxInt64_def pow2_def)
qed

lemmas float64_const_simps [simp] = float64_const_MinInt64 float64_const_MaxInt64

lemma int64_of_float64_numeral [simp]:
  "numeral k \<le> (2 ^ 63 - 1 :: int) \<Longrightarrow> int64_of_float64 (Finite (numeral k)) = numeral k"
  by (simp add: toward_zero_def MinInt64_def MaxInt64_def)

declare int64_of_float64.simps(1) [simp del] uint64_of_float64.simps(1) [simp del]

lemma int64_of_float64_neg_numeral [simp]:
  "numeral k \<le> (2 ^ 63 :: int) \<Longrightarrow> int64_of_float64 (Finite (- numeral k)) = - numeral k"
  by (simp add: int64_of_float64.simps toward_zero_def MinInt64_def MaxInt64_def)

lemma int64_of_float64_zero [simp]: "int64_of_float64 (Finite 0) = 0"
  by (simp add: int64_of_float64.simps toward_zero_def MinInt64_def MaxInt64_def)

lemma uint64_of_float64_numeral [simp]:
  "numeral k < (2 ^ 64 :: int) \<Longrightarrow> uint64_of_float64 (Finite (numeral k)) = numeral k"
  by (simp add: uint64_of_float64.simps toward_zero_def)

lemmas float_eval = float64_of_int64_def float64_of_uint64_def f_sub_def
  f_gt_def IsNaN_def IsInf_def round_half_away_def

lemma jitterInterval_10s_half:
  "jitterInterval 10000000000 (Finite (1 / 2)) = Inr (5000000000, 15000000000)"
  by (simp add: jitterInterval_def Let_def float_eval)

section \<open>The parsers on given tokens\<close>

lemmas float_defs = ParseFloat_def special_def special_inf_def readFloat_def underscoreOK_def
  pow10_def IsInf_def

lemma ParseFloat_20: "ParseFloat ''20'' = Inr (Finite 20)"
  by (simp add: float_defs char_defs)

lemma ParseFloat_2: "ParseFloat ''2'' = Inr (Finite 2)"
  by (simp add: float_defs char_defs)

lemma ParseFloat_25: "ParseFloat ''25'' = Inr (Finite 25)"
  by (simp add: float_defs char_defs)

lemma ParseFloat_NaN: "ParseFloat ''NaN'' = Inr NaN"
  by (simp add: float_defs char_defs)

lemma round64_half: "round64 (1 / 2) = Finite (1 / 2)"
proof -
  have "round64 (of_int 1 * pow2 (- 1)) = Finite (of_int 1 * pow2 (- 1))"
    by (rule round64_dyadic) (simp_all add: pow2_def)
  then show ?thesis
    by (simp add: pow2_def)
qed

lemma round64_quarter: "round64 (1 / 4) = Finite (1 / 4)"
proof -
  have "round64 (of_int 1 * pow2 (- 2)) = Finite (of_int 1 * pow2 (- 2))"
    by (rule round64_dyadic) (simp_all add: pow2_def)
  then show ?thesis
    by (simp add: pow2_def)
qed

lemma ParseFloat_0_5: "ParseFloat ''0.5'' = Inr (Finite (1 / 2))"
  by (simp add: float_defs char_defs round64_half)

lemma round64_fifth: "round64 (1 / 5) = Finite (3602879701896397 / 18014398509481984)"
proof -
  have "round64 (1 / 5) = Finite (of_int 7205759403792794 * pow2 (- 3 - 52))"
    by (rule round64_near) (simp_all add: pow2_def)
  then show ?thesis
    by (simp add: pow2_def)
qed

lemma parsePercent_20: "parsePercent ''20%'' = Inr (Finite (3602879701896397 / 18014398509481984))"
  by (simp add: parsePercent_def char_defs ParseFloat_20 round64_fifth)

lemma parsePercent_25: "parsePercent ''25%'' = Inr (Finite (1 / 4))"
  by (simp add: parsePercent_def char_defs ParseFloat_25 round64_quarter)

lemma f_mul_10s_fifth:
  "f_mul (Finite 10000000000) (Finite (3602879701896397 / 18014398509481984)) = Finite 2000000000"
proof -
  have "round64 (10000000000 * (3602879701896397 / 18014398509481984))
      = Finite (of_int 8388608000000000 * pow2 (30 - 52))"
    by (rule round64_near) (simp_all add: pow2_def)
  then show ?thesis
    by (simp add: pow2_def)
qed

lemma jitterInterval_10s_fifth:
  "jitterInterval 10000000000 (Finite (3602879701896397 / 18014398509481984))
     = Inr (8000000000, 12000000000)"
proof -
  have b: "float64_of_int64 10000000000 = Finite 10000000000"
    by (simp add: float64_of_int64_def)
  show ?thesis
    unfolding jitterInterval_def Let_def b f_mul_10s_fifth
    by (simp add: f_sub_def f_gt_def IsNaN_def IsInf_def round_half_away_def)
qed

lemma maxDays_value: "maxDays = Finite (3667970486771497 / 34359738368)"
proof -
  have "round64 (2 ^ 63 / 86400000000000)
      = Finite (of_int 7335940973542994 * pow2 (16 - 52))"
    by (rule round64_near) (simp_all add: pow2_def)
  moreover have "float64_const (24 * Hour) = Finite 86400000000000"
    by (simp add: float64_const_def Hour_def)
  ultimately show ?thesis
    unfolding maxDays_def float64_const_MaxInt64 by (simp add: pow2_def)
qed

lemma day_const: "float64_const (24 * Hour) = Finite 86400000000000"
  by (simp add: float64_const_def Hour_def)

lemma parseDuration_2d: "parseDuration ''2d'' = Inr 172800000000000"
  by (simp add: parseDuration_def char_defs ParseFloat_2 maxDays_value day_const f_gt_def)

lemma parseDuration_half_d: "parseDuration ''0.5d'' = Inr 43200000000000"
  by (simp add: parseDuration_def char_defs ParseFloat_0_5 maxDays_value day_const f_gt_def)

lemma parseDuration_NaNd: "parseDuration ''NaNd'' = Inr indefinite64"
  by (simp add: parseDuration_def char_defs ParseFloat_NaN maxDays_value day_const f_gt_def)

lemma round64_1e308: "round64 (10 ^ 308) = Finite (5010420900022432 * 2 ^ 971)"
proof -
  have "round64 (10 ^ 308) = Finite (of_int 5010420900022432 * pow2 (1023 - 52))"
    by (rule round64_near) (simp_all add: pow2_def)
  then show ?thesis
    by (simp add: pow2_def)
qed

lemma ParseFloat_1e308: "ParseFloat ''1e308'' = Inr (Finite (5010420900022432 * 2 ^ 971))"
  using round64_1e308 by (simp add: float_defs char_defs)

lemma parseDuration_1e308d: "parseDuration ''1e308d'' = Inl (DurationOutOfRange ''1e308d'')"
  using ParseFloat_1e308 by (simp add: parseDuration_def char_defs maxDays_value f_gt_def)

lemma round64_boundary:
  "round64 (10675199116730064 / 10 ^ 11) = Finite (3667970486771497 / 34359738368)"
proof -
  have "round64 (10675199116730064 / 10 ^ 11)
      = Finite (of_int 7335940973542994 * pow2 (16 - 52))"
    by (rule round64_near) (simp_all add: pow2_def)
  then show ?thesis
    by (simp add: pow2_def)
qed

lemma ParseFloat_boundary:
  "ParseFloat ''106751.99116730064'' = Inr (Finite (3667970486771497 / 34359738368))"
  using round64_boundary by (simp add: float_defs char_defs)

lemma f_mul_boundary:
  "f_mul (Finite (3667970486771497 / 34359738368)) (Finite 86400000000000) = Finite (2 ^ 63)"
proof -
  have "round64 (3667970486771497 / 34359738368 * 86400000000000)
      = Finite (of_int 9007199254740992 * pow2 (62 - 52))"
    by (rule round64_near) (simp_all add: pow2_def)
  then show ?thesis
    by (simp add: pow2_def)
qed

lemma parseDuration_boundary: "parseDuration ''106751.99116730064d'' = Inr indefinite64"
  unfolding parseDuration_def
  using ParseFloat_boundary
  by (simp add: char_defs maxDays_value day_const f_gt_def f_mul_boundary
      int64_of_float64.simps toward_zero_def MaxInt64_def MinInt64_def del: f_mul.simps)

lemma parseDuration_10s: "parseDuration ''10s'' = Inr 10000000000"
  by (simp add: parseDuration_def time_defs char_defs)

lemma parseArgs_10s: "parseArgs [''10s''] = Inr (5000000000, 15000000000, False)"
  by (simp add: parseArgs_def flag_defs resolve_defs parseDuration_10s defaultJitterFraction_def
      jitterInterval_10s_half)

lemma parseArgs_10s_20: "parseArgs [''10s'', ''20%''] = Inr (8000000000, 12000000000, False)"
  by (simp add: parseArgs_def flag_defs resolve_defs parseDuration_10s parsePercent_20
      jitterInterval_10s_fifth)

lemma parseDuration_big: "parseDuration ''9223372036s'' = Inr 9223372036000000000"
  by (simp add: parseDuration_def time_defs char_defs)

lemma parseArgs_range_wraps:
  "parseArgs [''-r'', ''9223372036s'', ''9223372036s''] = Inr (0, 0, False)"
  by (simp add: parseArgs_def flag_defs resolve_defs parseDuration_big)

lemma parseDuration_1_5h: "parseDuration ''1.5h'' = Inr 5400000000000"
  by (simp add: parseDuration_def time_defs char_defs float64_of_uint64_def)

section \<open>The resolved interval\<close>

lemma max_d_zero_nonneg: "0 \<le>s max_d x 0"
  by (simp add: max_d_def word_sle_eq word_sless_alt)

lemma clampInterval_Inr:
  assumes "clampInterval minSet minVal maxSet maxVal lh = Inr (low, high)"
  shows "0 \<le>s low \<and> low \<le>s high"
proof -
  obtain l2 h2 where lh: "low = max_d l2 0" "high = max_d h2 0" "\<not> high <s low"
    using assms by (auto simp: clampInterval_def Let_def split: if_splits prod.splits)
  from lh(3) have "low \<le>s high"
    by (simp add: word_sle_eq word_sless_alt)
  with lh(1) show ?thesis
    by (simp add: max_d_zero_nonneg)
qed

lemma resolve_Inr:
  assumes "resolve pos vars = Inr (low, high, v)"
  shows "0 \<le>s low \<and> low \<le>s high"
  using assms
  by (auto simp: resolve_def Let_def split: if_splits sum.splits prod.splits
      dest!: clampInterval_Inr)

lemma parseDuration_5s: "parseDuration ''5s'' = Inr 5000000000"
  by (simp add: parseDuration_def time_defs char_defs)

lemma parseDuration_15s: "parseDuration ''15s'' = Inr 15000000000"
  by (simp add: parseDuration_def time_defs char_defs)

lemma fs_Parse_min_max:
  "fs_Parse initialVars [''--min'', ''5s'', ''--max'', ''15s''] =
     Inr (\<lparr>jitterStr = [], rangeStr = [], minStr = ''5s'', maxStr = ''15s'', verbose = False\<rparr>, [])"
  by (simp add: flag_defs)

lemma parseArgs_min_max:
  "parseArgs [''--min'', ''5s'', ''--max'', ''15s''] = Inr (5000000000, 15000000000, False)"
  unfolding parseArgs_def fs_Parse_min_max
  by (simp add: resolve_defs parseDuration_5s parseDuration_15s)

text \<open>
  Claim C1. Whenever \<^verbatim>\<open>parseArgs\<close> succeeds on an argument list, the interval it returns
  satisfies \<open>0 \<le> low \<le> high\<close> (as signed 64-bit numbers): an input that would give
  anything else makes it return an error.
\<close>

theorem parseArgs_interval_invariant:
  assumes "parseArgs args = Inr (low, high, v)"
  shows "0 \<le>s low \<and> low \<le>s high"
proof -
  from assms obtain vars pos where "resolve pos vars = Inr (low, high, v)"
    by (auto simp: parseArgs_def split: sum.splits)
  then show ?thesis
    by (rule resolve_Inr)
qed

theorem parseArgs_interval_invariant_witness:
  "parseArgs [''--min'', ''5s'', ''--max'', ''15s''] = Inr (5000000000, 15000000000, False)
   \<and> (0 :: Duration) \<le>s 5000000000 \<and> (5000000000 :: Duration) \<le>s 15000000000"
  using parseArgs_interval_invariant [OF parseArgs_min_max] parseArgs_min_max by simp

section \<open>Choosing the duration\<close>

lemma sint64_uint:
  fixes x :: "64 word"
  shows "sint x = (if uint x < 2 ^ 63 then uint x else uint x - 2 ^ 64)"
proof -
  have r: "0 \<le> uint x" "uint x < 2 ^ 64"
    using uint_lt2p [of x] by simp_all
  have "sint x = (uint x + 2 ^ 63) mod 2 ^ 64 - 2 ^ 63"
    by (simp add: sint_uint signed_take_bit_eq_take_bit_shift take_bit_eq_mod)
  also have "\<dots> = (if uint x < 2 ^ 63 then uint x else uint x - 2 ^ 64)"
  proof (cases "uint x < 2 ^ 63")
    case True
    with r have "(uint x + 2 ^ 63) mod 2 ^ 64 = uint x + 2 ^ 63"
      by (intro mod_pos_pos_trivial) simp_all
    with True show ?thesis by simp
  next
    case False
    have "uint x + 2 ^ 63 = uint x - 2 ^ 63 + 2 ^ 64"
      by simp
    then have "(uint x + 2 ^ 63) mod 2 ^ 64 = (uint x - 2 ^ 63 + 2 ^ 64) mod 2 ^ 64"
      by (rule arg_cong)
    also have "\<dots> = (uint x - 2 ^ 63) mod 2 ^ 64"
      by (simp only: mod_add_self2)
    also have "\<dots> = uint x - 2 ^ 63"
      using False r by (intro mod_pos_pos_trivial) simp_all
    finally show ?thesis using False by simp
  qed
  finally show ?thesis .
qed

lemma nonneg_sint:
  fixes x :: "64 word"
  assumes "0 \<le>s x"
  shows "uint x < 2 ^ 63" and "sint x = uint x"
proof -
  from assms have "0 \<le> sint x"
    by (simp add: word_sle_eq)
  then show "uint x < 2 ^ 63"
    using uint_lt2p [of x] by (auto simp: sint64_uint split: if_splits)
  then show "sint x = uint x"
    by (simp add: sint64_uint)
qed

lemma attempts_less:
  assumes "attempts rnd n i k = Inr r" and "n \<noteq> 0"
  shows "r < n"
  using assms
proof (induction k arbitrary: i)
  case 0
  then show ?case by simp
next
  case (Suc k)
  then show ?case
    by (auto simp: word_mod_less_divisor word_greater_zero_iff split: option.splits if_splits)
qed

lemma interval_arith:
  fixes l h c w n r :: int
  assumes "0 \<le> l" "l < 2 ^ 64" "0 \<le> h" "h < 2 ^ 64" "0 \<le> c" "c < 2 ^ 64"
    and "w = (if l \<le> h then h - l else h - l + 2 ^ 64)"
    and "n = (if w + 1 < 2 ^ 64 then w + 1 else w + 1 - 2 ^ 64)"
    and "r = (if l + c < 2 ^ 64 then l + c else l + c - 2 ^ 64)"
    and "(if l < 2 ^ 63 then l else l - 2 ^ 64) < (if h < 2 ^ 63 then h else h - 2 ^ 64)"
    and "0 < (if n < 2 ^ 63 then n else n - 2 ^ 64)"
    and "c < n"
  shows "(if l < 2 ^ 63 then l else l - 2 ^ 64) \<le> (if r < 2 ^ 63 then r else r - 2 ^ 64)
       \<and> (if r < 2 ^ 63 then r else r - 2 ^ 64) \<le> (if h < 2 ^ 63 then h else h - 2 ^ 64)"
  using assms by (auto split: if_splits)

lemma offset_in_interval:
  fixes low high offset :: "64 word"
  assumes lh: "low <s high" and pos: "\<not> high - low + 1 \<le>s 0" and off: "offset < high - low + 1"
  shows "low \<le>s low + offset \<and> low + offset \<le>s high"
proof -
  have w: "uint (high - low)
      = (if uint low \<le> uint high then uint high - uint low else uint high - uint low + 2 ^ 64)"
    by (simp add: uint_sub_if')
  have n: "uint (high - low + 1)
      = (if uint (high - low) + 1 < 2 ^ 64 then uint (high - low) + 1
         else uint (high - low) + 1 - 2 ^ 64)"
    by (simp add: uint_plus_if')
  have r: "uint (low + offset)
      = (if uint low + uint offset < 2 ^ 64 then uint low + uint offset
         else uint low + uint offset - 2 ^ 64)"
    by (simp add: uint_plus_if')
  from lh have 1: "(if uint low < 2 ^ 63 then uint low else uint low - 2 ^ 64)
      < (if uint high < 2 ^ 63 then uint high else uint high - 2 ^ 64)"
    by (simp only: word_sless_alt sint64_uint)
  from pos have "0 < sint (high - low + 1)"
    by (simp add: word_sle_eq)
  then have 2: "0 < (if uint (high - low + 1) < 2 ^ 63 then uint (high - low + 1)
      else uint (high - low + 1) - 2 ^ 64)"
    by (simp only: sint64_uint)
  from off have 3: "uint offset < uint (high - low + 1)"
    by (simp add: word_less_def)
  have bl: "uint low < 2 ^ 64" and bh: "uint high < 2 ^ 64" and bo: "uint offset < 2 ^ 64"
    using uint_lt2p [of low] uint_lt2p [of high] uint_lt2p [of offset] by simp_all
  have "sint low \<le> sint (low + offset) \<and> sint (low + offset) \<le> sint high"
    unfolding sint64_uint [of low] sint64_uint [of high] sint64_uint [of "low + offset"]
    by (rule interval_arith [OF uint_ge_0 bl uint_ge_0 bh uint_ge_0 bo w n r 1 2 3])
  then show ?thesis
    by (simp add: word_sle_eq)
qed

lemma max_d_zero_mono: "a \<le>s b \<Longrightarrow> max_d a 0 \<le>s max_d b 0"
  by (auto simp: max_d_def word_sle_eq word_sless_alt)

lemma max_d_zero_ge: "a \<le>s max_d a 0"
  by (auto simp: max_d_def word_sle_eq word_sless_alt)

lemma max_d_zero_id: "0 \<le>s a \<Longrightarrow> max_d a 0 = a"
  by (auto simp: max_d_def word_sle_eq word_sless_alt)

lemma chooseSleepDuration_result:
  assumes lh: "low \<le>s high" and res: "chooseSleepDuration rnd low high = Inr d"
  shows "\<exists>r. d = max_d r 0 \<and> low \<le>s r \<and> r \<le>s high"
proof (cases "high = low")
  case True
  with res have "d = max_d low 0"
    by (simp add: chooseSleepDuration_def)
  with True show ?thesis
    by auto
next
  case False
  with lh have lt: "low <s high"
    by (simp add: word_sless_eq)
  from lh have nl: "\<not> high <s low"
    by (simp add: word_sle_eq word_sless_alt)
  show ?thesis
  proof (cases "low + (high - low) = word_of_int MaxInt64")
    case True
    with False nl res have d: "d = high"
      by (simp add: chooseSleepDuration_def Let_def)
    from True have "high = word_of_int MaxInt64"
      by simp
    then have "0 \<le>s high"
      by (simp add: MaxInt64_def word_sle_eq)
    then have "max_d high 0 = high"
      by (rule max_d_zero_id)
    with d lh show ?thesis
      by (intro exI [of _ high]) simp
  next
    case nomax: False
    from False nl nomax res obtain offset where
      c: "cryptoRandInt64 rnd (high - low + 1) = Inr offset" and d: "d = max_d (low + offset) 0"
      by (auto simp: chooseSleepDuration_def Let_def split: sum.splits)
    from c have pos: "\<not> high - low + 1 \<le>s 0"
      and a: "attempts rnd (high - low + 1) 0 1000 = Inr offset"
      by (auto simp: cryptoRandInt64_def split: if_splits)
    from pos have "high - low + 1 \<noteq> 0"
      by auto
    with a have "offset < high - low + 1"
      by (rule attempts_less)
    from offset_in_interval [OF lt pos this] d show ?thesis
      by auto
  qed
qed

lemma chooseSleepDuration_neg5_15: "chooseSleepDuration (constSource 7) (- 5) 15 = Inr 2"
  by (simp add: chooseSleepDuration_def cryptoRandInt64_def attempts_numeral constSource_def
      limit_def maxUint_def max_d_def MaxInt64_def word_sless_alt word_sle_eq)

text \<open>
  Claim C2, as stated, fails for negative durations: the result is floored at zero, so
  for \<open>low = high = - 1\<close> the program returns \<open>0\<close>, which is neither the common value
  nor inside \<open>[low, high]\<close>.
\<close>

theorem chooseSleepDuration_negative_counterexample:
  "(- 1 :: Duration) \<le>s - 1 \<and> chooseSleepDuration failingSource (- 1) (- 1) = Inr 0
   \<and> \<not> (0 :: Duration) \<le>s - 1"
  by (simp add: chooseSleepDuration_def max_d_def word_sless_alt word_sle_eq)

text \<open>
  Claim C2, amended. For every pair of durations with \<open>low \<le> high\<close> and every random
  source, \<^verbatim>\<open>chooseSleepDuration\<close> either fails or returns a value \<open>d\<close> with
  \<open>max low 0 \<le> d \<le> max high 0\<close>: the result is floored at zero. Hence \<open>low \<le> d\<close> always,
  and \<open>d \<le> high\<close> whenever \<open>high\<close> is not negative. When \<open>low = high\<close> the function
  returns \<open>max low 0\<close>, which is the common value whenever that value is not negative.
\<close>

theorem chooseSleepDuration_in_range:
  assumes "low \<le>s high"
  shows "(case chooseSleepDuration rnd low high of
            Inl err \<Rightarrow> True
          | Inr d \<Rightarrow> max_d low 0 \<le>s d \<and> d \<le>s max_d high 0
                     \<and> low \<le>s d \<and> (0 \<le>s high \<longrightarrow> d \<le>s high))
       \<and> (low = high \<longrightarrow> chooseSleepDuration rnd low high = Inr (max_d low 0))
       \<and> (low = high \<and> 0 \<le>s low \<longrightarrow> chooseSleepDuration rnd low high = Inr low)"
proof (intro conjI impI)
  show "case chooseSleepDuration rnd low high of
          Inl err \<Rightarrow> True
        | Inr d \<Rightarrow> max_d low 0 \<le>s d \<and> d \<le>s max_d high 0
                   \<and> low \<le>s d \<and> (0 \<le>s high \<longrightarrow> d \<le>s high)"
  proof (cases "chooseSleepDuration rnd low high")
    case (Inl e)
    then show ?thesis by simp
  next
    case (Inr d)
    from chooseSleepDuration_result [OF assms Inr] obtain r where
      r: "d = max_d r 0" "low \<le>s r" "r \<le>s high"
      by blast
    have "max_d low 0 \<le>s d" "d \<le>s max_d high 0"
      using r max_d_zero_mono by simp_all
    moreover have "low \<le>s d"
      using r(1,2) max_d_zero_ge [of r] by (simp add: word_sle_eq)
    moreover have "d \<le>s high" if "0 \<le>s high"
      using \<open>d \<le>s max_d high 0\<close> max_d_zero_id [OF that] by simp
    ultimately show ?thesis
      using Inr by simp
  qed
next
  assume "low = high"
  then show "chooseSleepDuration rnd low high = Inr (max_d low 0)"
    by (simp add: chooseSleepDuration_def)
next
  assume a: "low = high \<and> 0 \<le>s low"
  then have "high = low"
    by simp
  moreover from a have "0 \<le>s low" ..
  then have "max_d low 0 = low"
    by (rule max_d_zero_id)
  ultimately have "high = low" and "max_d low 0 = low"
    by simp_all
  then show "chooseSleepDuration rnd low high = Inr low"
    by (simp add: chooseSleepDuration_def)
qed

theorem chooseSleepDuration_in_range_witness:
  "(- 5 :: Duration) \<le>s 15 \<and> (0 :: Duration) \<le>s 15
   \<and> chooseSleepDuration (constSource 7) (- 5) 15 = Inr 2
   \<and> (- 5 :: Duration) \<le>s 2 \<and> (2 :: Duration) \<le>s 15
   \<and> chooseSleepDuration (constSource 7) 5 5 = Inr 5
   \<and> chooseSleepDuration (constSource 7) (- 1) (- 1) = Inr 0"
proof -
  have a: "(- 5 :: Duration) \<le>s 15" and b: "(0 :: Duration) \<le>s 15"
    and c: "(5 :: Duration) \<le>s 5" and e: "(- 1 :: Duration) \<le>s - 1" and f: "(0 :: Duration) \<le>s 5"
    by (simp_all add: word_sle_eq)
  have m: "max_d (- 1) 0 = (0 :: Duration)"
    by (simp add: max_d_def word_sless_alt)
  from chooseSleepDuration_in_range [OF a, of "constSource 7"] b
  have 1: "(- 5 :: Duration) \<le>s 2 \<and> (2 :: Duration) \<le>s 15"
    by (simp add: chooseSleepDuration_neg5_15)
  from chooseSleepDuration_in_range [OF c, of "constSource 7"] f
  have 2: "chooseSleepDuration (constSource 7) 5 5 = Inr 5"
    by blast
  from chooseSleepDuration_in_range [OF e, of "constSource 7"]
  have 3: "chooseSleepDuration (constSource 7) (- 1) (- 1) = Inr 0"
    by (simp add: m)
  from a b 1 2 3 chooseSleepDuration_neg5_15 show ?thesis
    by simp
qed

section \<open>Rejection sampling\<close>

lemma card_residue_class:
  fixes N q r :: nat
  assumes "r < N"
  shows "card {k. k < N * q \<and> k mod N = r} = q"
proof -
  have "{k. k < N * q \<and> k mod N = r} = (\<lambda>j. j * N + r) ` {..<q}"
  proof (intro set_eqI iffI)
    fix k
    assume "k \<in> {k. k < N * q \<and> k mod N = r}"
    then have k: "k < N * q" "k mod N = r"
      by auto
    have "k div N < q"
      using k(1) by (simp add: less_mult_imp_div_less mult.commute)
    moreover have "k = (k div N) * N + r"
      using k(2) by (metis div_mult_mod_eq)
    ultimately show "k \<in> (\<lambda>j. j * N + r) ` {..<q}"
      by blast
  next
    fix k
    assume "k \<in> (\<lambda>j. j * N + r) ` {..<q}"
    then obtain j where j: "j < q" "k = j * N + r"
      by auto
    have "j * N + r < (j + 1) * N"
      using assms by simp
    also have "\<dots> \<le> q * N"
      using j(1) by (intro mult_le_mono1) simp
    finally have "k < N * q"
      using j(2) by (simp add: mult.commute)
    moreover have "k mod N = r"
      using j(2) assms by simp
    ultimately show "k \<in> {k. k < N * q \<and> k mod N = r}"
      by simp
  qed
  moreover have "inj_on (\<lambda>j. j * N + r) {..<q}"
    using assms by (auto simp: inj_on_def)
  ultimately show ?thesis
    by (simp add: card_image)
qed

lemma card_word_residues:
  fixes L n r :: "64 word"
  shows "card {v. v < L \<and> v mod n = r} = card {k. k < unat L \<and> k mod unat n = unat r}"
proof -
  have "unat ` {v. v < L \<and> v mod n = r} = {k. k < unat L \<and> k mod unat n = unat r}"
  proof (intro set_eqI iffI)
    fix k
    assume "k \<in> unat ` {v. v < L \<and> v mod n = r}"
    then obtain v where v: "k = unat v" "v < L" "v mod n = r"
      by auto
    from v(3) have "unat v mod unat n = unat r"
      by (metis unat_mod)
    with v show "k \<in> {k. k < unat L \<and> k mod unat n = unat r}"
      by (simp add: word_less_nat_alt)
  next
    fix k
    assume "k \<in> {k. k < unat L \<and> k mod unat n = unat r}"
    then have k: "k < unat L" "k mod unat n = unat r"
      by auto
    have "k < 2 ^ 64"
      using k(1) unsigned_less [of L, where 'a = nat] by simp
    then have u: "unat (word_of_nat k :: 64 word) = k"
      by (simp add: unat_of_nat take_bit_nat_eq_self)
    have "(word_of_nat k :: 64 word) < L"
      using k(1) u by (simp add: word_less_nat_alt)
    moreover have "(word_of_nat k :: 64 word) mod n = r"
      using k(2) u by (metis unat_mod word_unat_eq_iff)
    ultimately have "word_of_nat k \<in> {v. v < L \<and> v mod n = r}"
      by simp
    then have "unat (word_of_nat k :: 64 word) \<in> unat ` {v. v < L \<and> v mod n = r}"
      by (rule imageI)
    then show "k \<in> unat ` {v. v < L \<and> v mod n = r}"
      by (simp only: u)
  qed
  moreover have "inj_on unat {v :: 64 word. v < L \<and> v mod n = r}"
    by (auto simp: inj_on_def word_unat_eq_iff)
  then have "card (unat ` {v :: 64 word. v < L \<and> v mod n = r}) = card {v. v < L \<and> v mod n = r}"
    by (rule card_image)
  ultimately show ?thesis
    by simp
qed

lemma unat_maxUint: "unat maxUint = 2 ^ 64 - 1"
  by (simp add: maxUint_def unsigned_minus_1_eq_mask mask_eq_exp_minus_1)

lemma unat_limit: "unat (limit n) = unat maxUint - unat maxUint mod unat n"
proof -
  have "maxUint mod n \<le> maxUint"
    by (simp add: maxUint_def)
  then show ?thesis
    by (simp add: limit_def unat_sub unat_mod)
qed

lemma attempts_first_accepted:
  assumes "\<forall>j<k. \<exists>w. rnd (i + j) = Some w \<and> limit n \<le> w"
    and "rnd (i + k) = Some v" and "v < limit n" and "k < m"
  shows "attempts rnd n i m = Inr (v mod n)"
  using assms
proof (induction k arbitrary: i m)
  case 0
  then obtain m' where "m = Suc m'"
    by (cases m) simp_all
  with 0 show ?case
    by simp
next
  case (Suc k)
  then obtain m' where m: "m = Suc m'" and km: "k < m'"
    by (cases m) simp_all
  from Suc.prems(1) obtain w where w: "rnd i = Some w" "limit n \<le> w"
    by force
  have "\<forall>j<k. \<exists>w. rnd (Suc i + j) = Some w \<and> limit n \<le> w"
    using Suc.prems(1) by (metis Suc_less_eq add_Suc_right add_Suc)
  moreover have "rnd (Suc i + k) = Some v"
    using Suc.prems(2) by simp
  ultimately have "attempts rnd n (Suc i) m' = Inr (v mod n)"
    using Suc.prems(3) km by (rule Suc.IH)
  with w m show ?case
    by (simp add: not_less [symmetric])
qed

lemma attempts_accepted_draw:
  assumes "attempts rnd n i m = Inr r"
  shows "\<exists>k<m. \<exists>v. rnd (i + k) = Some v \<and> v < limit n \<and> r = v mod n
           \<and> (\<forall>j<k. \<exists>w. rnd (i + j) = Some w \<and> limit n \<le> w)"
  using assms
proof (induction m arbitrary: i)
  case 0
  then show ?case by simp
next
  case (Suc m)
  from Suc.prems obtain v where v: "rnd i = Some v"
    by (auto split: option.splits)
  show ?case
  proof (cases "v < limit n")
    case True
    with v Suc.prems have "r = v mod n"
      by simp
    with v True show ?thesis
      by (intro exI [of _ 0]) simp
  next
    case False
    with v Suc.prems have "attempts rnd n (Suc i) m = Inr r"
      by simp
    from Suc.IH [OF this] obtain k u where k: "k < m" "rnd (Suc i + k) = Some u" "u < limit n"
      "r = u mod n" "\<forall>j<k. \<exists>w. rnd (Suc i + j) = Some w \<and> limit n \<le> w"
      by blast
    have "\<exists>w. rnd (i + j) = Some w \<and> limit n \<le> w" if "j < Suc k" for j
    proof (cases j)
      case 0
      with v False show ?thesis by simp
    next
      case (Suc j')
      with that k(5) show ?thesis by simp
    qed
    with k show ?thesis
      by (intro exI [of _ "Suc k"]) simp
  qed
qed

lemma cryptoRandInt64_accepted_draw:
  assumes "0 <s n"
  shows "cryptoRandInt64 rnd n = Inr r \<longleftrightarrow>
    (\<exists>k<1000. \<exists>v. rnd k = Some v \<and> v < limit n \<and> r = v mod n
       \<and> (\<forall>j<k. \<exists>w. rnd j = Some w \<and> limit n \<le> w))"
proof -
  from assms have c: "cryptoRandInt64 rnd n = attempts rnd n 0 1000"
    by (simp add: cryptoRandInt64_def word_sle_eq word_sless_alt)
  show ?thesis
  proof
    assume "cryptoRandInt64 rnd n = Inr r"
    with c have "attempts rnd n 0 1000 = Inr r"
      by simp
    from attempts_accepted_draw [OF this] show "\<exists>k<1000. \<exists>v. rnd k = Some v \<and> v < limit n
        \<and> r = v mod n \<and> (\<forall>j<k. \<exists>w. rnd j = Some w \<and> limit n \<le> w)"
      by simp
  next
    assume "\<exists>k<1000. \<exists>v. rnd k = Some v \<and> v < limit n \<and> r = v mod n
        \<and> (\<forall>j<k. \<exists>w. rnd j = Some w \<and> limit n \<le> w)"
    then obtain k v where k: "k < 1000" "rnd k = Some v" "v < limit n" "r = v mod n"
      "\<forall>j<k. \<exists>w. rnd j = Some w \<and> limit n \<le> w"
      by blast
    have "attempts rnd n 0 1000 = Inr (v mod n)"
      by (rule attempts_first_accepted [of k]) (use k in simp_all)
    with c k(4) show "cryptoRandInt64 rnd n = Inr r"
      by simp
  qed
qed


text \<open>
  Claim C3. For every \<open>n > 0\<close> (an \<^verbatim>\<open>int64\<close>), the threshold \<open>limit n\<close> of
  \<^verbatim>\<open>cryptoRandInt64\<close> is a multiple of \<open>n\<close> within the range of \<^verbatim>\<open>uint64\<close>, no multiple
  of \<open>n\<close> in that range is larger, and every residue \<open>r < n\<close> is the value \<open>v mod n\<close> of
  exactly \<open>limit n div n\<close> values \<open>v < limit n\<close>. These are the accepted values:
  \<^verbatim>\<open>cryptoRandInt64\<close> returns \<open>r\<close> exactly when, within its 1000 reads, the first value \<open>v\<close>
  of the source that is not at or above \<open>limit n\<close> is read after successful reads only,
  and \<open>r = v mod n\<close>; every result is below \<open>n\<close>. So all offsets are produced by equally
  many accepted values of the source.
\<close>

theorem rejection_sampling_unbiased:
  fixes n :: uint64
  assumes "0 <s n"
  shows "unat n dvd unat (limit n)
    \<and> unat (limit n) \<le> unat maxUint
    \<and> (\<forall>m. unat n dvd m \<and> m \<le> unat maxUint \<longrightarrow> m \<le> unat (limit n))
    \<and> (\<forall>r. r < n \<longrightarrow> card {v. v < limit n \<and> v mod n = r} = unat (limit n) div unat n)
    \<and> (\<forall>rnd r. cryptoRandInt64 rnd n = Inr r \<longleftrightarrow>
          (\<exists>k<1000. \<exists>v. rnd k = Some v \<and> v < limit n \<and> r = v mod n
             \<and> (\<forall>j<k. \<exists>w. rnd j = Some w \<and> limit n \<le> w)))
    \<and> (\<forall>rnd r. cryptoRandInt64 rnd n = Inr r \<longrightarrow> r < n)"
proof -
  let ?N = "unat n" and ?M = "unat maxUint"
  have N: "0 < ?N"
    using assms by (metis word_sless_alt sint_0 unat_0_iff not_gr_zero less_irrefl)
  have d: "?N dvd unat (limit n)"
    by (simp add: unat_limit dvd_minus_mod)
  have le: "unat (limit n) \<le> ?M"
    by (simp add: unat_limit)
  have largest: "m \<le> unat (limit n)" if "?N dvd m" "m \<le> ?M" for m
  proof -
    from that(1) obtain k where k: "m = ?N * k"
      by (auto simp: dvd_def)
    with that(2) N have "k \<le> ?M div ?N"
      by (simp add: less_eq_div_iff_mult_less_eq mult.commute)
    then have "?N * k \<le> ?N * (?M div ?N)"
      by simp
    also have "\<dots> = ?M - ?M mod ?N"
      by (simp add: minus_mod_eq_mult_div)
    finally show ?thesis
      using k by (simp add: unat_limit)
  qed
  have cnt: "card {v. v < limit n \<and> v mod n = r} = unat (limit n) div ?N" if "r < n" for r
  proof -
    from d obtain q where q: "unat (limit n) = ?N * q"
      by (auto simp: dvd_def)
    have "unat r < ?N"
      using that by (simp add: word_less_nat_alt)
    then have "card {k. k < ?N * q \<and> k mod ?N = unat r} = q"
      by (rule card_residue_class)
    then show ?thesis
      using q N by (simp add: card_word_residues)
  qed
  have less: "r < n" if "cryptoRandInt64 rnd n = Inr r" for rnd r
  proof -
    from that assms have "attempts rnd n 0 1000 = Inr r" and "n \<noteq> 0"
      by (auto simp: cryptoRandInt64_def split: if_splits)
    then show ?thesis
      by (rule attempts_less)
  qed
  show ?thesis
  proof (intro conjI allI impI)
    show "?N dvd unat (limit n)" by (rule d)
    show "unat (limit n) \<le> ?M" by (rule le)
    show "m \<le> unat (limit n)" if "?N dvd m \<and> m \<le> ?M" for m
      using that largest by blast
    show "card {v. v < limit n \<and> v mod n = r} = unat (limit n) div ?N" if "r < n" for r
      using that by (rule cnt)
    show "cryptoRandInt64 rnd n = Inr r \<longleftrightarrow>
          (\<exists>k<1000. \<exists>v. rnd k = Some v \<and> v < limit n \<and> r = v mod n
             \<and> (\<forall>j<k. \<exists>w. rnd j = Some w \<and> limit n \<le> w))" for rnd r
      using assms by (rule cryptoRandInt64_accepted_draw)
    show "r < n" if "cryptoRandInt64 rnd n = Inr r" for rnd r
      using that by (rule less)
  qed
qed

lemma limit_3: "limit 3 = 18446744073709551615"
  by (simp add: limit_def maxUint_def)

theorem rejection_sampling_unbiased_witness:
  "(0 :: uint64) <s 3 \<and> (1 :: uint64) < 3
   \<and> card {v :: uint64. v < limit 3 \<and> v mod 3 = 1} = 6148914691236517205
   \<and> listSource [18446744073709551615, 7] 0 = Some 18446744073709551615
   \<and> \<not> (18446744073709551615 :: uint64) < limit 3
   \<and> listSource [18446744073709551615, 7] 1 = Some 7
   \<and> (7 :: uint64) < limit 3
   \<and> cryptoRandInt64 (listSource [18446744073709551615, 7]) 3 = Inr 1"
proof -
  let ?rnd = "listSource [18446744073709551615, 7]"
  have h: "(0 :: uint64) <s 3"
    by (simp add: word_sless_alt)
  have r: "(1 :: uint64) < 3"
    by simp
  note t = rejection_sampling_unbiased [OF h]
  from t have "\<forall>r. r < 3 \<longrightarrow> card {v :: uint64. v < limit 3 \<and> v mod 3 = r} = unat (limit 3) div unat (3 :: uint64)"
    by (elim conjE)
  with r have c: "card {v :: uint64. v < limit 3 \<and> v mod 3 = 1} = 6148914691236517205"
    by (simp add: limit_3)
  from t have i: "\<forall>rnd r. cryptoRandInt64 rnd 3 = Inr r \<longleftrightarrow>
          (\<exists>k<1000. \<exists>v. rnd k = Some v \<and> v < limit 3 \<and> r = v mod 3
             \<and> (\<forall>j<k. \<exists>w. rnd j = Some w \<and> limit 3 \<le> w))"
    by (elim conjE)
  have "\<exists>k<1000. \<exists>v. ?rnd k = Some v \<and> v < limit 3 \<and> (1 :: uint64) = v mod 3
       \<and> (\<forall>j<k. \<exists>w. ?rnd j = Some w \<and> limit 3 \<le> w)"
    by (intro exI [of _ 1] exI [of _ 7]) (simp add: listSource_def limit_3)
  with i have d: "cryptoRandInt64 ?rnd 3 = Inr 1"
    by blast
  have "?rnd 0 = Some 18446744073709551615" "\<not> (18446744073709551615 :: uint64) < limit 3"
    "?rnd 1 = Some 7" "(7 :: uint64) < limit 3"
    by (simp_all add: listSource_def limit_3)
  with h r c d show ?thesis
    by simp
qed

section \<open>Flags with an empty value\<close>

lemma formal_names:
  assumes "formal name = Some target" and "target \<noteq> VerboseVar"
  shows "name \<in> set [''jitter'', ''j'', ''range'', ''r'', ''min'', ''m'', ''max'', ''M'']"
  using assms by (auto simp: formal_def split: if_splits)

lemma flag_name_facts:
  assumes "name \<in> set [''jitter'', ''j'', ''range'', ''r'', ''min'', ''m'', ''max'', ''M'']"
  shows "name \<noteq> []" and "hd name \<noteq> CHR ''-''" and "hd name \<noteq> CHR ''=''"
    and "splitEq name = (name, None)" and "splitEq (name @ ''='') = (name, Some [])"
    and "name \<noteq> ''help''" and "name \<noteq> ''h''"
  using assms by (auto simp: splitEq_def)

lemma flag_argument_facts:
  assumes "name \<noteq> []" and "hd name \<noteq> CHR ''-''" and "dash = ''-'' \<or> dash = ''--''"
  shows "\<not> length (dash @ name) < 2" and "hd (dash @ name) = CHR ''-''"
    and "dash @ name \<noteq> ''--''" and "flagName (dash @ name) = name"
  using assms by (cases name; auto simp: flagName_def)+

lemma fs_Parse_string_flag:
  assumes "formal name = Some target" and "target \<noteq> VerboseVar"
    and "dash = ''-'' \<or> dash = ''--''"
  shows "fs_Parse vars ((dash @ name) # v # args) = fs_Parse (setString target v vars) args"
proof -
  note n = flag_name_facts [OF formal_names [OF assms(1,2)]]
  note a = flag_argument_facts [OF n(1,2) assms(3)]
  have l: "\<not> length dash + length name < 2"
    using a(1) by simp
  show ?thesis
    by (subst fs_Parse.simps(2)) (simp add: a l n assms(1,2))
qed

lemma fs_Parse_empty_value:
  assumes "formal name = Some target" and "target \<noteq> VerboseVar"
    and "dash = ''-'' \<or> dash = ''--''"
  shows "fs_Parse vars ((dash @ name) # [] # args) = fs_Parse (setString target [] vars) args"
  using assms by (rule fs_Parse_string_flag)

lemma fs_Parse_equals_empty:
  assumes "formal name = Some target" and "target \<noteq> VerboseVar"
    and "dash = ''-'' \<or> dash = ''--''"
  shows "fs_Parse vars ((dash @ name @ ''='') # args) = fs_Parse (setString target [] vars) args"
proof -
  note n = flag_name_facts [OF formal_names [OF assms(1,2)]]
  have m: "name @ ''='' \<noteq> []" "hd (name @ ''='') \<noteq> CHR ''-''"
    using n(1,2) by simp_all
  note a = flag_argument_facts [OF m assms(3)]
  have h: "hd (name @ ''='') \<noteq> CHR ''=''"
    using n(1,3) by simp
  have l: "\<not> length dash + (length name + 1) < 2" "\<not> length dash + Suc (length name) < 2"
    using a(1) by simp_all
  show ?thesis
    by (subst fs_Parse.simps(2)) (simp add: a l n h assms(1,2))
qed

lemma setString_initial: "setString target [] initialVars = initialVars"
  by (cases target) (simp_all add: initialVars_def)

lemma stringOf_setString:
  assumes "target \<noteq> VerboseVar"
  shows "stringOf target (setString target v vars) = v"
  using assms by (cases target) simp_all

lemma stringOf_setString_other:
  assumes "t \<noteq> target"
  shows "stringOf t (setString target v vars) = stringOf t vars"
  using assms by (cases target; cases t) simp_all

lemma verbose_setString: "verbose (setString target v vars) = verbose vars"
  by (cases target) simp_all

lemma stringOf_initial: "stringOf target initialVars = []"
  by (cases target) (simp_all add: initialVars_def)

lemma setString_same:
  assumes "stringOf target vars = v"
  shows "setString target v vars = vars"
  using assms by (cases target) auto

lemma setString_twice: "setString t v (setString t w vars) = setString t v vars"
  by (cases t) simp_all

lemma setString_commute:
  assumes "t \<noteq> target"
  shows "setString t v (setString target w vars) = setString target w (setString t v vars)"
  using assms by (cases t; cases target) simp_all

lemma setString_verbose: "setString t v (vars\<lparr>verbose := b\<rparr>) = (setString t v vars)\<lparr>verbose := b\<rparr>"
  by (cases t) simp_all

lemma emptied_simps [simp]:
  "emptied t (Inl e) = Inl e" "emptied t (Inr (vars, pos)) = Inr (setString t [] vars, pos)"
  by (simp_all add: emptied_def)

lemma fs_Parse_withoutFlag:
  "fs_Parse (setString t [] v0) (withoutFlag t args) = emptied t (fs_Parse v0 args)"
proof (induction args arbitrary: v0 rule: length_induct)
  case (1 args)
  note IH = 1 [rule_format]
  show ?case
  proof (cases args)
    case Nil
    then show ?thesis by simp
  next
    case (Cons s rest)
    let ?nm = "fst (splitEq (flagName s))" and ?val = "snd (splitEq (flagName s))"
    have ih: "fs_Parse (setString t [] v) (withoutFlag t rest) = emptied t (fs_Parse v rest)" for v
      using IH [of rest v] Cons by simp
    consider (stop) "length s < 2 \<or> hd s \<noteq> CHR ''-''"
      | (dd) "\<not> (length s < 2 \<or> hd s \<noteq> CHR ''-'')" "s = ''--''"
      | (bad) "\<not> (length s < 2 \<or> hd s \<noteq> CHR ''-'')" "s \<noteq> ''--''"
          "flagName s = [] \<or> hd (flagName s) = CHR ''-'' \<or> hd (flagName s) = CHR ''=''"
      | (flag) "\<not> (length s < 2 \<or> hd s \<noteq> CHR ''-'')" "s \<noteq> ''--''"
          "\<not> (flagName s = [] \<or> hd (flagName s) = CHR ''-'' \<or> hd (flagName s) = CHR ''='')"
      by blast
    then show ?thesis
    proof cases
      case stop
      with Cons show ?thesis by simp
    next
      case dd
      with Cons show ?thesis by simp
    next
      case bad
      with Cons show ?thesis by simp
    next
      case flag
      show ?thesis
      proof (cases "formal ?nm")
        case None
        with flag Cons show ?thesis by simp
      next
        case (Some target)
        show ?thesis
        proof (cases "target = VerboseVar")
          case True
          with Some flag Cons ih show ?thesis
            by (simp add: setString_verbose [symmetric] split: option.splits)
        next
          case nv: False
          show ?thesis
          proof (cases ?val)
            case (Some v) note val = this
            show ?thesis
            proof (cases "target = t")
              case True
              with val nv \<open>formal ?nm = Some target\<close> flag Cons ih [of "setString t v v0"]
              show ?thesis by (simp add: setString_twice)
            next
              case False
              then have "t \<noteq> target" by simp
              with val nv \<open>formal ?nm = Some target\<close> flag Cons ih [of "setString target v v0"] False
              show ?thesis by (simp add: setString_commute)
            qed
          next
            case None note val = this
            show ?thesis
            proof (cases rest)
              case Nil
              with val nv \<open>formal ?nm = Some target\<close> flag Cons show ?thesis by simp
            next
              case (Cons v rest')
              have ih': "fs_Parse (setString t [] u) (withoutFlag t rest') = emptied t (fs_Parse u rest')" for u
                using IH [of rest' u] Cons \<open>args = s # rest\<close> by simp
              show ?thesis
              proof (cases "target = t")
                case True
                with val nv \<open>formal ?nm = Some target\<close> flag Cons \<open>args = s # rest\<close> ih' [of "setString t v v0"]
                show ?thesis by (simp add: setString_twice)
              next
                case False
                then have "t \<noteq> target" by simp
                with val nv \<open>formal ?nm = Some target\<close> flag Cons \<open>args = s # rest\<close>
                  ih' [of "setString target v v0"] False
                show ?thesis by (simp add: setString_commute)
              qed
            qed
          qed
        qed
      qed
    qed
  qed
qed


lemma withoutFlag_empty_value:
  assumes "formal name = Some target" and "target \<noteq> VerboseVar"
    and "dash = ''-'' \<or> dash = ''--''"
  shows "withoutFlag target ((dash @ name) # v # args) = withoutFlag target args"
proof -
  note n = flag_name_facts [OF formal_names [OF assms(1,2)]]
  note a = flag_argument_facts [OF n(1,2) assms(3)]
  have l: "\<not> length dash + length name < 2"
    using a(1) by simp
  show ?thesis
    by (subst withoutFlag.simps(2)) (simp add: a l n assms(1,2))
qed

lemma withoutFlag_equals_value:
  assumes "formal name = Some target" and "target \<noteq> VerboseVar"
    and "dash = ''-'' \<or> dash = ''--''"
  shows "withoutFlag target ((dash @ name @ ''='') # args) = withoutFlag target args"
proof -
  note n = flag_name_facts [OF formal_names [OF assms(1,2)]]
  have m: "name @ ''='' \<noteq> []" "hd (name @ ''='') \<noteq> CHR ''-''"
    using n(1,2) by simp_all
  note a = flag_argument_facts [OF m assms(3)]
  have h: "hd (name @ ''='') \<noteq> CHR ''=''"
    using n(1,3) by simp
  have l: "\<not> length dash + (length name + 1) < 2" "\<not> length dash + Suc (length name) < 2"
    using a(1) by simp_all
  show ?thesis
    by (subst withoutFlag.simps(2)) (simp add: a l n h assms(1,2))
qed

lemma parseArgs_withoutFlag:
  "parseArgs (withoutFlag t args)
     = (case fs_Parse initialVars args of
          Inl err \<Rightarrow> Inl err
        | Inr (vars, pos) \<Rightarrow> resolve pos (setString t [] vars))"
proof -
  have "fs_Parse initialVars (withoutFlag t args) = emptied t (fs_Parse initialVars args)"
    using fs_Parse_withoutFlag [of t initialVars args] by (simp add: setString_initial)
  then show ?thesis
    by (simp add: parseArgs_def emptied_def split: sum.splits prod.splits)
qed

lemma parseArgs_flag_empty:
  assumes "fs_Parse initialVars args = Inr (vars, pos)" and "stringOf t vars = []"
  shows "parseArgs args = parseArgs (withoutFlag t args)"
proof -
  from assms(2) have "setString t [] vars = vars"
    by (rule setString_same)
  with assms(1) have "parseArgs (withoutFlag t args) = resolve pos vars"
    unfolding parseArgs_withoutFlag by simp
  with assms(1) show ?thesis
    by (simp add: parseArgs_def)
qed

lemma parseArgs_after_prefix:
  assumes pre: "\<And>rest. fs_Parse initialVars (pre @ rest) = fs_Parse v1 rest"
    and f: "formal name = Some target" "target \<noteq> VerboseVar" "dash = ''-'' \<or> dash = ''--''"
  shows "parseArgs (pre @ (dash @ name) # [] # args)
           = (case fs_Parse (setString target [] v1) args of
                Inl err \<Rightarrow> Inl err
              | Inr (vars, pos) \<Rightarrow> resolve pos vars)"
    and "parseArgs (pre @ (dash @ name @ ''='') # args)
           = (case fs_Parse (setString target [] v1) args of
                Inl err \<Rightarrow> Inl err
              | Inr (vars, pos) \<Rightarrow> resolve pos vars)"
    and "stringOf target v1 = [] \<Longrightarrow> parseArgs (pre @ (dash @ name) # [] # args) = parseArgs (pre @ args)"
    and "stringOf target v1 = [] \<Longrightarrow> parseArgs (pre @ (dash @ name @ ''='') # args) = parseArgs (pre @ args)"
  using pre fs_Parse_empty_value [OF f] fs_Parse_equals_empty [OF f]
  by (simp_all add: parseArgs_def setString_same)

lemma parseArgs_v_10s: "parseArgs [''-v'', ''10s''] = Inr (5000000000, 15000000000, True)"
  by (simp add: parseArgs_def flag_defs resolve_defs parseDuration_10s defaultJitterFraction_def
      jitterInterval_10s_half)

lemma parseDuration_7s: "parseDuration ''7s'' = Inr 7000000000"
  by (simp add: parseDuration_def time_defs char_defs)

lemma fs_Parse_min_7s:
  "fs_Parse initialVars [''--min'', ''7s'', ''10s''] =
     Inr (\<lparr>jitterStr = [], rangeStr = [], minStr = ''7s'', maxStr = [], verbose = False\<rparr>, [''10s''])"
  by (simp add: flag_defs)

lemma parseArgs_min_7s:
  "parseArgs [''--min'', ''7s'', ''10s''] = Inr (7000000000, 15000000000, False)"
  unfolding parseArgs_def fs_Parse_min_7s
  by (simp add: resolve_defs parseDuration_10s parseDuration_7s defaultJitterFraction_def
      jitterInterval_10s_half)


lemma fs_Parse_v: "fs_Parse vars (''-v'' # rest) = fs_Parse (vars\<lparr>verbose := True\<rparr>) rest"
  by (simp add: flag_defs)

lemma fs_Parse_min_7s_empty:
  "fs_Parse initialVars [''--min'', ''7s'', ''--min'', [], ''10s''] = Inr (initialVars, [''10s''])"
  by (simp add: flag_defs)

lemma withoutFlag_min_7s_empty:
  "withoutFlag MinVar [''--min'', ''7s'', ''--min'', [], ''10s''] = [''10s'']"
  by (simp add: flag_defs)

text \<open>
  Claim C10. A string flag given with an empty value is treated as an absent flag. For
  each of the names \<^verbatim>\<open>jitter\<close>, \<^verbatim>\<open>j\<close>, \<^verbatim>\<open>range\<close>, \<^verbatim>\<open>r\<close>, \<^verbatim>\<open>min\<close>, \<^verbatim>\<open>m\<close>, \<^verbatim>\<open>max\<close>, \<^verbatim>\<open>M\<close>,
  written with one or two dashes, as \<^verbatim>\<open>--name ""\<close> or as \<^verbatim>\<open>--name=\<close>, and at any place among
  the flags:

  \<^item> \<^verbatim>\<open>fs.Parse\<close> stores the value it is given, here the empty string, in the variable of
    the flag, whatever the variable held before, and goes on; the empty string is the
    default of the variable, which is how \<^verbatim>\<open>parseArgs\<close> recognises an absent flag;
  \<^item> after any flags \<open>pre\<close> that leave the variable empty, \<^verbatim>\<open>parseArgs\<close> returns the same
    result with and without the empty-valued flag; after any flags at all, the result is
    the one resolved from the state in which the variable is empty;
  \<^item> whenever the variable of a flag is empty at the end of parsing, \<^verbatim>\<open>parseArgs\<close>
    returns what it returns on the argument list without that flag. An empty value
    overrides an earlier value of the same flag: \<^verbatim>\<open>--min 7s --min "" 10s\<close> gives the
    result of \<^verbatim>\<open>10s\<close>, not that of \<^verbatim>\<open>--min 7s 10s\<close>.

  No format error is raised: \<^verbatim>\<open>--jitter ""\<close> gives the default jitter and \<^verbatim>\<open>--min ""\<close> no
  minimum.
\<close>

theorem empty_flag_value_is_absent:
  assumes "formal name = Some target" and "target \<noteq> VerboseVar"
    and "dash = ''-'' \<or> dash = ''--''"
  shows "fs_Parse vars ((dash @ name) # [] # args) = fs_Parse (setString target [] vars) args
       \<and> fs_Parse vars ((dash @ name @ ''='') # args) = fs_Parse (setString target [] vars) args
       \<and> stringOf target (setString target v vars) = v
       \<and> stringOf target initialVars = []
       \<and> (stringOf target vars = [] \<longrightarrow> setString target [] vars = vars)
       \<and> parseArgs ((dash @ name) # [] # args) = parseArgs args
       \<and> parseArgs ((dash @ name @ ''='') # args) = parseArgs args
       \<and> ((\<forall>rest. fs_Parse initialVars (pre @ rest) = fs_Parse v1 rest) \<and> stringOf target v1 = []
            \<longrightarrow> parseArgs (pre @ (dash @ name) # [] # args) = parseArgs (pre @ args)
              \<and> parseArgs (pre @ (dash @ name @ ''='') # args) = parseArgs (pre @ args))
       \<and> ((\<forall>rest. fs_Parse initialVars (pre @ rest) = fs_Parse v1 rest)
            \<longrightarrow> parseArgs (pre @ (dash @ name) # [] # args)
                = (case fs_Parse (setString target [] v1) args of
                     Inl err \<Rightarrow> Inl err
                   | Inr (vars', pos) \<Rightarrow> resolve pos vars'))
       \<and> (fs_Parse initialVars all = Inr (final, pos) \<and> stringOf target final = []
            \<longrightarrow> parseArgs all = parseArgs (withoutFlag target all))
       \<and> parseArgs (withoutFlag target all)
            = (case fs_Parse initialVars all of
                 Inl err \<Rightarrow> Inl err
               | Inr (vars', pos) \<Rightarrow> resolve pos (setString target [] vars'))
       \<and> withoutFlag target ((dash @ name) # v # args) = withoutFlag target args
       \<and> withoutFlag target ((dash @ name @ ''='') # args) = withoutFlag target args"
proof (intro conjI impI)
  show "fs_Parse vars ((dash @ name) # [] # args) = fs_Parse (setString target [] vars) args"
    using assms by (rule fs_Parse_empty_value)
  show "fs_Parse vars ((dash @ name @ ''='') # args) = fs_Parse (setString target [] vars) args"
    using assms by (rule fs_Parse_equals_empty)
  show "stringOf target (setString target v vars) = v"
    using assms(2) by (rule stringOf_setString)
  show "stringOf target initialVars = []"
    by (rule stringOf_initial)
  show "setString target [] vars = vars" if "stringOf target vars = []"
    using that by (rule setString_same)
  show "parseArgs ((dash @ name) # [] # args) = parseArgs args"
    using fs_Parse_empty_value [OF assms] by (simp add: parseArgs_def setString_initial)
  show "parseArgs ((dash @ name @ ''='') # args) = parseArgs args"
    using fs_Parse_equals_empty [OF assms] by (simp add: parseArgs_def setString_initial)
  show "parseArgs (pre @ (dash @ name) # [] # args) = parseArgs (pre @ args)"
    if "(\<forall>rest. fs_Parse initialVars (pre @ rest) = fs_Parse v1 rest) \<and> stringOf target v1 = []"
    using that parseArgs_after_prefix(3) [OF _ assms, of pre v1] by blast
  show "parseArgs (pre @ (dash @ name @ ''='') # args) = parseArgs (pre @ args)"
    if "(\<forall>rest. fs_Parse initialVars (pre @ rest) = fs_Parse v1 rest) \<and> stringOf target v1 = []"
    using that parseArgs_after_prefix(4) [OF _ assms, of pre v1] by blast
  show "parseArgs (pre @ (dash @ name) # [] # args)
      = (case fs_Parse (setString target [] v1) args of
           Inl err \<Rightarrow> Inl err
         | Inr (vars', pos) \<Rightarrow> resolve pos vars')"
    if "\<forall>rest. fs_Parse initialVars (pre @ rest) = fs_Parse v1 rest"
    using that parseArgs_after_prefix(1) [OF _ assms, of pre v1] by blast
  show "parseArgs all = parseArgs (withoutFlag target all)"
    if "fs_Parse initialVars all = Inr (final, pos) \<and> stringOf target final = []"
    using that parseArgs_flag_empty by blast
  show "parseArgs (withoutFlag target all)
      = (case fs_Parse initialVars all of
           Inl err \<Rightarrow> Inl err
         | Inr (vars', pos) \<Rightarrow> resolve pos (setString target [] vars'))"
    by (rule parseArgs_withoutFlag)
  show "withoutFlag target ((dash @ name) # v # args) = withoutFlag target args"
    using assms by (rule withoutFlag_empty_value)
  show "withoutFlag target ((dash @ name @ ''='') # args) = withoutFlag target args"
    using assms by (rule withoutFlag_equals_value)
qed

theorem empty_flag_value_is_absent_witness:
  "formal ''jitter'' = Some JitterVar \<and> formal ''min'' = Some MinVar
   \<and> parseArgs [''--jitter'', [], ''10s''] = Inr (5000000000, 15000000000, False)
   \<and> parseArgs [''--min'', [], ''10s''] = Inr (5000000000, 15000000000, False)
   \<and> parseArgs [''--min='', ''10s''] = Inr (5000000000, 15000000000, False)
   \<and> parseArgs [''-v'', ''--min'', [], ''10s''] = Inr (5000000000, 15000000000, True)
   \<and> parseArgs [''-v'', ''10s''] = Inr (5000000000, 15000000000, True)
   \<and> parseArgs [''--min'', ''7s'', ''--min'', [], ''10s''] = Inr (5000000000, 15000000000, False)
   \<and> withoutFlag MinVar [''--min'', ''7s'', ''--min'', [], ''10s''] = [''10s'']
   \<and> parseArgs [''--min'', ''7s'', ''10s''] = Inr (7000000000, 15000000000, False)"
proof -
  have j: "formal ''jitter'' = Some JitterVar" and m: "formal ''min'' = Some MinVar"
    by (simp_all add: formal_def)
  have d: "''--'' = ''-'' \<or> ''--'' = ''--''"
    by simp
  have "parseArgs ((''--'' @ ''jitter'') # [] # [''10s'']) = parseArgs [''10s'']"
    using empty_flag_value_is_absent [OF j _ d] by blast
  then have 1: "parseArgs [''--jitter'', [], ''10s''] = Inr (5000000000, 15000000000, False)"
    by (simp add: parseArgs_10s)
  note t = empty_flag_value_is_absent [OF m _ d, of _ _ _ "[''-v'']" "initialVars\<lparr>verbose := True\<rparr>"
      "[''--min'', ''7s'', ''--min'', [], ''10s'']" initialVars "[''10s'']"]
  have "parseArgs ((''--'' @ ''min'') # [] # [''10s'']) = parseArgs [''10s'']"
    and "parseArgs ((''--'' @ ''min'' @ ''='') # [''10s'']) = parseArgs [''10s'']"
    using t by blast+
  then have 2: "parseArgs [''--min'', [], ''10s''] = Inr (5000000000, 15000000000, False)"
    and 3: "parseArgs [''--min='', ''10s''] = Inr (5000000000, 15000000000, False)"
    by (simp_all add: parseArgs_10s)
  have p: "\<forall>rest. fs_Parse initialVars ([''-v''] @ rest) = fs_Parse (initialVars\<lparr>verbose := True\<rparr>) rest"
    by (simp only: append_Cons append_Nil fs_Parse_v simp_thms)
  have e: "stringOf MinVar (initialVars\<lparr>verbose := True\<rparr>) = []"
    by (simp add: initialVars_def)
  from t p e have "parseArgs ([''-v''] @ (''--'' @ ''min'') # [] # [''10s'']) = parseArgs ([''-v''] @ [''10s''])"
    by blast
  then have 4: "parseArgs [''-v'', ''--min'', [], ''10s''] = Inr (5000000000, 15000000000, True)"
    by (simp add: parseArgs_v_10s)
  have f: "stringOf MinVar initialVars = []"
    by (simp add: initialVars_def)
  from t fs_Parse_min_7s_empty f
  have "parseArgs [''--min'', ''7s'', ''--min'', [], ''10s'']
      = parseArgs (withoutFlag MinVar [''--min'', ''7s'', ''--min'', [], ''10s''])"
    by blast
  then have 5: "parseArgs [''--min'', ''7s'', ''--min'', [], ''10s''] = Inr (5000000000, 15000000000, False)"
    by (simp only: withoutFlag_min_7s_empty parseArgs_10s)
  show ?thesis
    by (simp only: j m 1 2 3 4 5 parseArgs_v_10s withoutFlag_min_7s_empty parseArgs_min_7s
        simp_thms)
qed

section \<open>Overflow in the absolute range branch\<close>

text \<open>
  Claim C4 does not hold of the code. Line 147 computes \<^verbatim>\<open>base-rangeVal\<close> and
  \<^verbatim>\<open>base+rangeVal\<close> in \<^verbatim>\<open>int64\<close> with no check, where the percent branch (lines 162 to
  170) and the day suffix (lines 208 to 211) do check. For \<^verbatim>\<open>jsleep -r 9223372036s
  9223372036s\<close> the sum \<open>base + range\<close> exceeds the largest \<^verbatim>\<open>int64\<close>, wraps to a negative
  number, is floored at zero, and the interval \<open>(0, 0)\<close> is returned without an error.
\<close>

theorem range_branch_wraps:
  "parseDuration ''9223372036s'' = Inr 9223372036000000000
   \<and> MaxInt64 < sint (9223372036000000000 :: Duration) + sint (9223372036000000000 :: Duration)
   \<and> parseArgs [''-r'', ''9223372036s'', ''9223372036s''] = Inr (0, 0, False)"
  by (simp add: parseDuration_big parseArgs_range_wraps MaxInt64_def)

section \<open>Overflow in the day branch\<close>

text \<open>
  Claim C8 does not hold of the code. The check of lines 208 to 211 compares the number
  of days with \<^verbatim>\<open>maxDays\<close>, the quotient of \<open>2 ^ 63\<close> (the \<^verbatim>\<open>float64\<close> nearest to
  \<^verbatim>\<open>math.MaxInt64\<close>) by the nanoseconds of a day, rounded to \<^verbatim>\<open>float64\<close>. The token
  \<^verbatim>\<open>106751.99116730064d\<close> parses as exactly \<^verbatim>\<open>maxDays\<close> and passes the check, but its product
  with the nanoseconds of a day is \<open>2 ^ 63\<close> in \<^verbatim>\<open>float64\<close>, one more than the largest
  \<^verbatim>\<open>int64\<close>: \<^verbatim>\<open>parseDuration\<close> returns the conversion of a number out of range, with no
  error. The token \<^verbatim>\<open>NaNd\<close> passes the check too, every comparison with a NaN being false,
  and \<^verbatim>\<open>parseDuration\<close> returns the conversion of a NaN, with no error.
\<close>

theorem day_branch_boundary_overflows:
  "ParseFloat ''106751.99116730064'' = Inr maxDays
   \<and> \<not> f_gt maxDays maxDays \<and> \<not> f_lt maxDays (f_neg maxDays)
   \<and> f_mul maxDays (float64_const (24 * Hour)) = Finite (2 ^ 63)
   \<and> MaxInt64 < 2 ^ 63
   \<and> parseDuration ''106751.99116730064d'' = Inr (int64_of_float64 (Finite (2 ^ 63)))
   \<and> ParseFloat ''NaN'' = Inr NaN
   \<and> \<not> f_gt NaN maxDays \<and> \<not> f_lt NaN (f_neg maxDays)
   \<and> parseDuration ''NaNd'' = Inr (int64_of_float64 NaN)"
proof -
  have "int64_of_float64 (Finite (2 ^ 63)) = indefinite64"
    by (simp add: int64_of_float64.simps toward_zero_def MaxInt64_def MinInt64_def)
  moreover have "f_mul maxDays (float64_const (24 * Hour)) = Finite (2 ^ 63)"
    unfolding maxDays_value day_const by (rule f_mul_boundary)
  moreover have "\<not> f_gt maxDays maxDays" "\<not> f_lt maxDays (f_neg maxDays)"
    "\<not> f_gt NaN maxDays" "\<not> f_lt NaN (f_neg maxDays)"
    by (simp_all add: maxDays_value f_gt_def)
  moreover have "ParseFloat ''106751.99116730064'' = Inr maxDays"
    unfolding maxDays_value by (rule ParseFloat_boundary)
  ultimately show ?thesis
    by (simp add: parseDuration_boundary parseDuration_NaNd ParseFloat_NaN MaxInt64_def
        del: f_mul.simps)
qed

section \<open>Percentages\<close>

lemma ParseFloat_neg10: "ParseFloat ''-10'' = Inr (Finite (- 10))"
  by (simp add: float_defs char_defs)

lemma ParseFloat_abc: "ParseFloat ''abc'' = Inl ErrSyntax"
  by (simp add: float_defs char_defs)

lemma round64_tiny:
  assumes "0 < q" and "q < pow2 (- 1075)"
  shows "round64 q = Finite 0" and "round64 (- q) = Finite 0"
proof -
  have "pow2 (- 1075) < pow2 (- 1022)"
    by (simp add: pow2_less)
  with assms have e: "exponent64 \<bar>q\<bar> = - 1022"
    by (simp add: exponent64_def)
  have "pow2 (- 1075) = pow2 (- 1074) * (1 / 2)"
    using pow2_add [of "- 1074" "- 1"] by (simp add: pow2_def)
  with assms have "q / pow2 (- 1074) < 1 / 2"
    by (simp add: pos_divide_less_eq mult.commute)
  moreover have "0 < q / pow2 (- 1074)"
    using assms by simp
  ultimately have r: "round_even (q / pow2 (- 1074)) = 0"
    using round_even_near [of 0 "q / pow2 (- 1074)"] by simp
  have p: "\<not> pow2 1024 \<le> 0"
    using pow2_pos [of 1024] by (simp only: not_le)
  from assms e r p show "round64 q = Finite 0"
    by (simp add: round64_def Let_def)
  then show "round64 (- q) = Finite 0"
    by (simp add: round64_neg)
qed

lemma round64_neg_1e_400: "round64 (- (1 / 10 ^ 400)) = Finite 0"
  by (rule round64_tiny) (simp_all add: pow2_def)

lemma ParseFloat_neg_1e_400: "ParseFloat ''-1e-400'' = Inr (Finite 0)"
  using round64_neg_1e_400 by (simp add: float_defs char_defs)

lemma parsePercent_NaN: "parsePercent ''NaN%'' = Inr NaN"
  by (simp add: parsePercent_def HasSuffix_def TrimSuffix_def ParseFloat_NaN)

text \<open>
  Claim C9, as stated, fails on \<^verbatim>\<open>NaN%\<close>: the text before \<^verbatim>\<open>%\<close> parses as a NaN, which is
  not a non-negative float (it is neither zero nor above zero), and yet \<^verbatim>\<open>parsePercent\<close>
  succeeds on it, with the value NaN: the test of line 231 is \<^verbatim>\<open>val < 0\<close>, which is false
  for a NaN.
\<close>

theorem parsePercent_NaN_counterexample:
  "HasSuffix ''NaN%'' (CHR ''%'')
   \<and> ParseFloat (TrimSuffix ''NaN%'' (CHR ''%'')) = Inr NaN
   \<and> IsNaN NaN \<and> NaN \<noteq> Finite 0 \<and> \<not> f_lt (Finite 0) NaN
   \<and> parsePercent ''NaN%'' = Inr NaN"
  by (simp add: parsePercent_NaN HasSuffix_def TrimSuffix_def ParseFloat_NaN IsNaN_def)

text \<open>
  Claim C9, amended. \<^verbatim>\<open>parsePercent\<close> succeeds exactly when its input ends with \<^verbatim>\<open>%\<close> and
  \<^verbatim>\<open>strconv.ParseFloat\<close> accepts the text before it with a value \<open>v\<close> for which \<^verbatim>\<open>v < 0\<close>
  is false, and then returns \<open>v / 100\<close>. Such a value is a number not below zero, \<open>+Inf\<close>
  or a NaN; what counts is the value, not the spelling, so that \<^verbatim>\<open>NaN%\<close> is accepted with
  the value NaN and \<^verbatim>\<open>-1e-400%\<close>, whose number rounds to zero, with the value zero.
  Without the final \<^verbatim>\<open>%\<close> it fails with "percent must end with %", on a text that
  \<^verbatim>\<open>ParseFloat\<close> rejects with "invalid percent" (the two messages of the kind
  \<^verbatim>\<open>InvalidFormat\<close>), and on a value below zero with "jitter cannot be negative".
\<close>

theorem parsePercent_characterisation:
  "(parsePercent s = Inr p \<longleftrightarrow>
      HasSuffix s (CHR ''%'')
      \<and> (\<exists>v. ParseFloat (butlast s) = Inr v \<and> \<not> f_lt v (Finite 0) \<and> p = f_div v (Finite 100)))
   \<and> (\<not> HasSuffix s (CHR ''%'') \<longrightarrow> parsePercent s = Inl (PercentMustEndWithPercent s))
   \<and> (HasSuffix s (CHR ''%'') \<and> isl (ParseFloat (butlast s)) \<longrightarrow> parsePercent s = Inl (InvalidPercent s))
   \<and> (HasSuffix s (CHR ''%'') \<and> (\<exists>v. ParseFloat (butlast s) = Inr v \<and> f_lt v (Finite 0))
        \<longrightarrow> parsePercent s = Inl JitterNegative)"
  by (auto simp: parsePercent_def TrimSuffix_def isl_def split: sum.splits)

theorem parsePercent_characterisation_witness:
  "parsePercent ''25%'' = Inr (Finite (1 / 4))
   \<and> parsePercent ''50'' = Inl (PercentMustEndWithPercent ''50'')
   \<and> parsePercent ''abc%'' = Inl (InvalidPercent ''abc%'')
   \<and> parsePercent ''-10%'' = Inl JitterNegative
   \<and> parsePercent ''NaN%'' = Inr NaN
   \<and> parsePercent ''-1e-400%'' = Inr (Finite 0)"
proof -
  have a: "HasSuffix ''25%'' (CHR ''%'')" "\<not> HasSuffix ''50'' (CHR ''%'')"
    "HasSuffix ''abc%'' (CHR ''%'')" "HasSuffix ''-10%'' (CHR ''%'')"
    "HasSuffix ''NaN%'' (CHR ''%'')" "HasSuffix ''-1e-400%'' (CHR ''%'')"
    by (simp_all add: HasSuffix_def)
  have "parsePercent ''25%'' = Inr (Finite (1 / 4))"
    using parsePercent_characterisation [of "''25%''" "Finite (1 / 4)"] a(1)
    by (simp add: ParseFloat_25 round64_quarter)
  moreover have "parsePercent ''50'' = Inl (PercentMustEndWithPercent ''50'')"
    using parsePercent_characterisation [of "''50''"] a(2) by simp
  moreover have "parsePercent ''abc%'' = Inl (InvalidPercent ''abc%'')"
    using parsePercent_characterisation [of "''abc%''"] a(3) by (simp add: ParseFloat_abc)
  moreover have "parsePercent ''-10%'' = Inl JitterNegative"
    using parsePercent_characterisation [of "''-10%''"] a(4) by (simp add: ParseFloat_neg10)
  moreover have "parsePercent ''NaN%'' = Inr NaN"
    using parsePercent_characterisation [of "''NaN%''" NaN] a(5) by (simp add: ParseFloat_NaN)
  moreover have "parsePercent ''-1e-400%'' = Inr (Finite 0)"
    using parsePercent_characterisation [of "''-1e-400%''" "Finite 0"] a(6)
    by (simp add: ParseFloat_neg_1e_400 round64_zero)
  ultimately show ?thesis
    by simp
qed

end
